theory Spec2Isabelle
  imports Main "HOL-Library.Word"
begin

text \<open>
  The chat component of the book reader: the parser of the streamed answer (Server-Sent
  Events frames), the updater that appends the deltas to the open message, and
  \<open>handleSend\<close> in its two versions, the one of \<open>src/App.tsx\<close> and the later one with the
  streak counter and the resume pointer.

  One call of \<open>handleSend\<close> is modelled as a function from the component state before the
  call to the state after it.  The platform's answers (identifiers, clock, the response of
  the ask endpoint and the text of its reads) are inputs.  \<open>fetch\<close>, the stream reader and
  \<open>localStorage\<close> may throw; \<open>crypto\<close>, \<open>Date\<close>, the console and the analytics and
  error-tracking libraries are taken not to.  The body of a response is a finite list of
  reads.
\<close>

section \<open>JavaScript strings\<close>

text \<open>
  A JavaScript string is a sequence of UTF-16 code units. The literals of the source are
  ASCII, written here as \<open>js ''...''\<close>.
\<close>

type_synonym jschar = "16 word"
type_synonym jsstring = "jschar list"

definition js :: "string \<Rightarrow> jsstring" where
  "js s = map of_char s"

definition LF :: jschar where
  "LF = 0x0A"

text \<open>
  The code units matched by \<open>\s\<close> in a regular expression and removed by
  \<open>String.prototype.trim\<close>: ECMAScript's WhiteSpace and LineTerminator.
\<close>

definition is_space :: "jschar \<Rightarrow> bool" where
  "is_space c \<longleftrightarrow>
     c \<in> {0x09, 0x0A, 0x0B, 0x0C, 0x0D, 0x20, 0xA0, 0x1680,
          0x2028, 0x2029, 0x202F, 0x205F, 0x3000, 0xFEFF}
     \<or> (0x2000 \<le> c \<and> c \<le> 0x200A)"

text \<open>\<open>s.trim()\<close>\<close>

definition trim :: "jsstring \<Rightarrow> jsstring" where
  "trim s = rev (dropWhile is_space (rev (dropWhile is_space s)))"

text \<open>\<open>line.startsWith(p)\<close>\<close>

definition startsWith :: "jsstring \<Rightarrow> jsstring \<Rightarrow> bool" where
  "startsWith line p \<longleftrightarrow> take (length p) line = p"

text \<open>
  \<open>line.replace(/^p\s?/, '')\<close> for a literal \<open>p\<close>: when the line begins with \<open>p\<close>, the
  prefix and at most one whitespace code unit after it are removed; a line that does not
  match is returned as it is.
\<close>

definition replace_field :: "jsstring \<Rightarrow> jsstring \<Rightarrow> jsstring" where
  "replace_field p line =
     (if startsWith line p then
        (case drop (length p) line of
           [] \<Rightarrow> []
         | c # rest \<Rightarrow> if is_space c then rest else c # rest)
      else line)"

text \<open>\<open>chunk.split('\n')\<close>: the empty string gives one empty line.\<close>

fun split_from :: "jsstring \<Rightarrow> jsstring \<Rightarrow> jsstring list" where
  "split_from cur [] = [cur]"
| "split_from cur (c # cs) =
     (if c = LF then cur # split_from [] cs else split_from (cur @ [c]) cs)"

definition split_nl :: "jsstring \<Rightarrow> jsstring list" where
  "split_nl s = split_from [] s"

text \<open>\<open>dataLines.join('\n')\<close>\<close>

fun join_nl :: "jsstring list \<Rightarrow> jsstring" where
  "join_nl [] = []"
| "join_nl [l] = l"
| "join_nl (l # m # ls) = l @ LF # join_nl (m # ls)"

text \<open>\<open>buffer.indexOf('\n\n')\<close>, with \<open>None\<close> for \<open>-1\<close>.\<close>

fun indexOf_nlnl :: "jsstring \<Rightarrow> nat option" where
  "indexOf_nlnl (a # b # cs) =
     (if a = LF \<and> b = LF then Some 0 else map_option Suc (indexOf_nlnl (b # cs)))"
| "indexOf_nlnl _ = None"

section \<open>The SSE frame parser of \<open>handleSend\<close>\<close>

text \<open>
  The \<open>for (const line of lines)\<close> loop, with its two variables \<open>dataLines\<close> and
  \<open>eventType\<close> (\<open>None\<close> is \<open>null\<close>).
\<close>

fun scan_lines ::
  "jsstring list \<Rightarrow> jsstring list \<Rightarrow> jsstring option \<Rightarrow> jsstring list \<times> jsstring option"
where
  "scan_lines [] dataLines eventType = (dataLines, eventType)"
| "scan_lines (line # lines) dataLines eventType =
     (if startsWith line (js ''event:'') then
        scan_lines lines dataLines (Some (trim (replace_field (js ''event:'') line)))
      else if startsWith line (js ''data:'') then
        scan_lines lines (dataLines @ [replace_field (js ''data:'') line]) eventType
      else scan_lines lines dataLines eventType)"

text \<open>
  One frame (the text before a blank line): the delta handed to \<open>setMessages\<close>, or
  \<open>None\<close> when the guard \<open>dataLines.length && (eventType === null || eventType === 'chunk')\<close>
  fails and nothing is forwarded.
\<close>

definition frame_delta :: "jsstring \<Rightarrow> jsstring option" where
  "frame_delta chunk =
     (case scan_lines (split_nl chunk) [] None of
        (dataLines, eventType) \<Rightarrow>
          if dataLines \<noteq> [] \<and> (eventType = None \<or> eventType = Some (js ''chunk''))
          then Some (join_nl dataLines) else None)"

lemma indexOf_nlnl_bound: "indexOf_nlnl s = Some i \<Longrightarrow> i + 2 \<le> length s"
  by (induction s arbitrary: i rule: indexOf_nlnl.induct) (auto split: if_splits)

text \<open>
  The inner loop \<open>while ((idx = buffer.indexOf('\n\n')) !== -1)\<close>. Its state is the buffer
  and the deltas forwarded so far, each one a call of \<open>setMessages\<close> with the updater that
  appends the delta to the open message; React runs the updaters in the order of the calls.
\<close>

function drain :: "jsstring \<Rightarrow> jsstring list \<Rightarrow> jsstring \<times> jsstring list" where
  "drain buffer forwarded =
     (case indexOf_nlnl buffer of
        None \<Rightarrow> (buffer, forwarded)
      | Some idx \<Rightarrow>
          drain (drop (idx + 2) buffer)
            (case frame_delta (take idx buffer) of
               Some delta \<Rightarrow> forwarded @ [delta]
             | None \<Rightarrow> forwarded))"
  by pat_completeness auto
termination
  by (relation "measure (\<lambda>(buffer, forwarded). length buffer)")
     (auto dest: indexOf_nlnl_bound)

text \<open>
  The outer loop \<open>while (!done)\<close>. The reader yields decoded text chunks and then either
  reports the end of the data or throws.  On the last read \<open>value\<close> is undefined, the
  empty string is appended and the inner loop runs once more.
\<close>

datatype stream_end = EndOfData | ReadThrows

fun read_loop ::
  "jsstring list \<Rightarrow> stream_end \<Rightarrow> jsstring \<Rightarrow> jsstring list \<Rightarrow> jsstring \<times> jsstring list"
where
  "read_loop [] EndOfData buffer forwarded = drain (buffer @ []) forwarded"
| "read_loop [] ReadThrows buffer forwarded = (buffer, forwarded)"
| "read_loop (v # reads) e buffer forwarded =
     (case drain (buffer @ v) forwarded of
        (buffer', forwarded') \<Rightarrow> read_loop reads e buffer' forwarded')"

text \<open>The deltas forwarded for a body read to its end, starting from \<open>let buffer = ''\<close>.\<close>

definition stream_deltas :: "jsstring list \<Rightarrow> jsstring list" where
  "stream_deltas reads = snd (read_loop reads EndOfData [] [])"


section \<open>The conversation\<close>

datatype role = User | Book

record chat_msg =
  msg_id :: jsstring
  role :: role
  content :: jsstring
  ts :: int

record book =
  book_id :: jsstring
  title :: jsstring
  author :: jsstring
  theme :: "jsstring option"
  color :: "jsstring option"
  cover :: "jsstring option"
  tagline :: "jsstring option"

text \<open>
  The updater of line 131 / 240,
  \<open>(m) => m.map((msg) => msg.id === bookMsgId ? { ...msg, content: (msg.content + delta) } : msg)\<close>.
\<close>

definition appendDelta :: "jsstring \<Rightarrow> jsstring \<Rightarrow> chat_msg list \<Rightarrow> chat_msg list" where
  "appendDelta bookMsgId delta m =
     map (\<lambda>msg. if msg_id msg = bookMsgId then msg\<lparr>content := content msg @ delta\<rparr> else msg) m"

text \<open>The queued updaters of one stream, run in the order of their calls.\<close>

definition appendDeltas :: "jsstring \<Rightarrow> jsstring list \<Rightarrow> chat_msg list \<Rightarrow> chat_msg list" where
  "appendDeltas bookMsgId deltas m = foldl (\<lambda>m' delta. appendDelta bookMsgId delta m') m deltas"

section \<open>The world around \<open>handleSend\<close>\<close>

text \<open>
  What \<open>fetch\<close> and the body's reader do: \<open>fetch\<close> rejects, or resolves to a response with
  its \<open>ok\<close> flag and its body (\<open>None\<close> when \<open>res.body\<close> is null); a body is the decoded
  text of its reads and the way it ends.
\<close>

datatype body = Body "jsstring list" stream_end

datatype fetch_result = FetchRejects | Resolves bool "body option"

text \<open>Calls to the collaborators, recorded in the order they are made.\<close>

datatype effect =
    Fetch_ask jsstring jsstring
  | Console_error
  | Console_warn
  | Posthog_capture jsstring
  | Sentry_captureException

text \<open>
  The exceptions of the model: the \<open>TypeError\<close> of a call to a method that is not there,
  an exception of \<open>localStorage\<close>, a rejection of \<open>fetch\<close> or of \<open>reader.read()\<close>, and
  the \<open>Error\<close> that \<open>handleSend\<close> throws itself (\<open>Request failed\<close>).
\<close>

datatype js_error = TypeError | StorageError | NetworkError | RequestFailed

text \<open>
  \<open>localStorage\<close>: the stored items, and whether \<open>getItem\<close> and \<open>setItem\<close> throw
  (storage disabled, quota exceeded).
\<close>

record local_storage =
  items :: "(jsstring \<times> jsstring) list"
  getItem_throws :: bool
  setItem_throws :: bool

definition getItem :: "local_storage \<Rightarrow> jsstring \<Rightarrow> js_error + jsstring option" where
  "getItem ls k = (if getItem_throws ls then Inl StorageError else Inr (map_of (items ls) k))"

fun put_item :: "jsstring \<Rightarrow> jsstring \<Rightarrow> (jsstring \<times> jsstring) list \<Rightarrow> (jsstring \<times> jsstring) list" where
  "put_item k v [] = [(k, v)]"
| "put_item k v ((k', v') # kvs) = (if k' = k then (k, v) # kvs else (k', v') # put_item k v kvs)"

definition setItem :: "local_storage \<Rightarrow> jsstring \<Rightarrow> jsstring \<Rightarrow> js_error + local_storage" where
  "setItem ls k v =
     (if setItem_throws ls then Inl StorageError else Inr (ls\<lparr>items := put_item k v (items ls)\<rparr>))"

record resume_session =
  bookId :: jsstring
  question :: jsstring
  bookTitle :: "jsstring option"

text \<open>
  The values the platform hands to one run of \<open>handleSend\<close>: the results of the three
  \<open>crypto.randomUUID()\<close> and \<open>Date.now()\<close> calls that build the messages, the two date
  strings \<open>new Date().toISOString().slice(0,10)\<close> and
  \<open>new Date(Date.now() - 86400000).toISOString().slice(0,10)\<close>, the outcome of the request,
  and \<open>JSON.stringify\<close> on a session object.
\<close>

record env =
  userMsg_uuid :: jsstring
  bookMsg_uuid :: jsstring
  errorMsg_uuid :: jsstring
  userMsg_now :: int
  initBookMsg_now :: int
  errorMsg_now :: int
  todayStr :: jsstring
  yesterdayStr :: jsstring
  ask_result :: fetch_result
  JSON_stringify :: "resume_session \<Rightarrow> jsstring"

section \<open>Numbers in \<open>localStorage\<close>\<close>

text \<open>
  The streak count is a JavaScript number that only ever holds an integer. It is modelled
  as an \<open>int\<close>; the model is exact while the magnitude stays below \<open>2 ^ 53\<close>, where
  every integer is a double and \<open>count + 1\<close> does not round.
\<close>

definition safe_integer :: "int \<Rightarrow> bool" where
  "safe_integer n \<longleftrightarrow> \<bar>n\<bar> < 2 ^ 53"

definition digit_value :: "jschar \<Rightarrow> nat option" where
  "digit_value c =
     (if 0x30 \<le> c \<and> c \<le> 0x39 then Some (unat c - 48)
      else if 0x61 \<le> c \<and> c \<le> 0x7A then Some (unat c - 87)
      else if 0x41 \<le> c \<and> c \<le> 0x5A then Some (unat c - 55)
      else None)"

definition radix_digit :: "nat \<Rightarrow> jschar \<Rightarrow> bool" where
  "radix_digit R c = (case digit_value c of Some d \<Rightarrow> d < R | None \<Rightarrow> False)"

fun digits_value :: "nat \<Rightarrow> nat \<Rightarrow> jsstring \<Rightarrow> nat" where
  "digits_value R acc [] = acc"
| "digits_value R acc (c # cs) =
     digits_value R (acc * R + (case digit_value c of Some d \<Rightarrow> d | None \<Rightarrow> 0)) cs"

text \<open>
  \<open>parseInt(s)\<close> without a radix: leading whitespace is skipped, then an optional sign, an
  optional \<open>0x\<close> or \<open>0X\<close>, and the longest run of digits; \<open>None\<close> is \<open>NaN\<close>.
\<close>

definition parseInt :: "jsstring \<Rightarrow> int option" where
  "parseInt inputString =
     (let S = dropWhile is_space inputString;
          sign = (if startsWith S (js ''-'') then - 1 else 1 :: int);
          S1 = (if startsWith S (js ''-'') \<or> startsWith S (js ''+'') then drop 1 S else S);
          hex = (startsWith S1 (js ''0x'') \<or> startsWith S1 (js ''0X''));
          R = (if hex then 16 else 10);
          S2 = (if hex then drop 2 S1 else S1);
          Z = takeWhile (radix_digit R) S2
      in if Z = [] then None else Some (sign * int (digits_value R 0 Z)))"

text \<open>\<open>String(count)\<close> for an integer below \<open>10 ^ 21\<close> in magnitude: its decimal digits.\<close>

function decimal :: "nat \<Rightarrow> jsstring" where
  "decimal n = (if n < 10 then [0x30 + of_nat n] else decimal (n div 10) @ [0x30 + of_nat (n mod 10)])"
  by pat_completeness auto
termination
  by (relation "measure id") auto

definition String_of :: "int \<Rightarrow> jsstring" where
  "String_of n = (if n < 0 then js ''-'' @ decimal (nat (- n)) else decimal (nat n))"

text \<open>\<open>parseInt(item || '0') || 0\<close> for the result \<open>item\<close> of \<open>getItem\<close>.\<close>

definition stored_count :: "jsstring option \<Rightarrow> int" where
  "stored_count item =
     (case parseInt (case item of None \<Rightarrow> js ''0'' | Some s \<Rightarrow> if s = [] then js ''0'' else s) of
        None \<Rightarrow> 0
      | Some n \<Rightarrow> n)"

section \<open>The component state\<close>

text \<open>
  The state of \<open>src/App.tsx\<close>: the \<open>useState\<close> cells that \<open>handleSend\<close> reads or writes,
  and the trace of calls made to the collaborators.
\<close>

record app_state =
  books :: "book list"
  selected :: "book option"
  query :: jsstring
  messages :: "chat_msg list"
  search :: jsstring
  trace :: "effect list"

text \<open>The later version of the component adds the streak, the resume banner and \<open>localStorage\<close>.\<close>

record full_state = app_state +
  showJournalDrawer :: bool
  streak :: int
  resumeSession :: "resume_session option"
  dailyPrompts :: "jsstring list"
  localStorage :: local_storage

definition setMessages ::
  "(chat_msg list \<Rightarrow> chat_msg list) \<Rightarrow> 'a app_state_scheme \<Rightarrow> 'a app_state_scheme" where
  "setMessages f st = st\<lparr>messages := f (messages st)\<rparr>"

definition emit :: "effect \<Rightarrow> 'a app_state_scheme \<Rightarrow> 'a app_state_scheme" where
  "emit e st = st\<lparr>trace := trace st @ [e]\<rparr>"

text \<open>\<open>selected ?? books[0]\<close>; \<open>books[0]\<close> of an empty array is \<open>undefined\<close>.\<close>

definition which_book :: "'a app_state_scheme \<Rightarrow> book option" where
  "which_book st =
     (case selected st of
        Some b \<Rightarrow> Some b
      | None \<Rightarrow> (case books st of [] \<Rightarrow> None | b # _ \<Rightarrow> Some b))"

definition fallback_text :: jsstring where
  "fallback_text = js ''Sorry, something went wrong while fetching the answer.''"

text \<open>
  The body of the \<open>try\<close> block after \<open>fetch\<close> is called (lines 96--134 of \<open>src/App.tsx\<close>, the
  same text in the later version): the deltas forwarded, and the exception that reaches the
  \<open>catch\<close>, if any.
\<close>

definition ask_stream :: "fetch_result \<Rightarrow> jsstring list \<times> js_error option" where
  "ask_stream r =
     (case r of
        FetchRejects \<Rightarrow> ([], Some NetworkError)
      | Resolves ok b \<Rightarrow>
          (case b of
             None \<Rightarrow> ([], Some RequestFailed)
           | Some (Body reads e) \<Rightarrow>
               if \<not> ok then ([], Some RequestFailed)
               else (snd (read_loop reads e [] []),
                     if e = ReadThrows then Some NetworkError else None)))"

text \<open>
  The ways the transport can fail in the ask flow: \<open>fetch\<close> rejects, the status is not 2xx,
  the response has no body, or a read throws.
\<close>

fun transport_fails :: "fetch_result \<Rightarrow> bool" where
  "transport_fails FetchRejects = True"
| "transport_fails (Resolves ok None) = True"
| "transport_fails (Resolves ok (Some (Body reads e))) = (\<not> ok \<or> e = ReadThrows)"

section \<open>\<open>handleSend\<close> of \<open>src/App.tsx\<close>\<close>

definition handleSend_App :: "env \<Rightarrow> app_state \<Rightarrow> app_state" where
  "handleSend_App env st =
     (let q = trim (query st) in
      if q = [] then st
      else
        let userMsg = \<lparr>msg_id = userMsg_uuid env, role = User, content = q, ts = userMsg_now env\<rparr>;
            st1 = setMessages (\<lambda>m. m @ [userMsg]) st;
            st2 = st1\<lparr>query := []\<rparr>
        in (case which_book st of
              None \<Rightarrow> st2
            | Some which \<Rightarrow>
                let bookMsgId = bookMsg_uuid env;
                    initBookMsg = \<lparr>msg_id = bookMsgId, role = Book, content = [],
                                   ts = initBookMsg_now env\<rparr>;
                    st3 = setMessages (\<lambda>m. m @ [initBookMsg]) st2;
                    st4 = emit (Fetch_ask (book_id which) q) st3
                in (case ask_stream (ask_result env) of
                      (deltas, thrown) \<Rightarrow>
                        let st5 = setMessages (appendDeltas bookMsgId deltas) st4
                        in (case thrown of
                              Some e \<Rightarrow>
                                let errorMsg = \<lparr>msg_id = errorMsg_uuid env, role = Book,
                                                 content = fallback_text, ts = errorMsg_now env\<rparr>
                                in setMessages (\<lambda>m. m @ [errorMsg]) (emit Console_error st5)
                            | None \<Rightarrow> st5))))"

section \<open>\<open>handleSend\<close> of the later version\<close>

text \<open>
  The first \<open>try\<close> block, "Update streak". An exception of \<open>localStorage\<close> leaves the
  block at the call that throws and is answered by \<open>console.warn\<close>.
\<close>

definition update_streak :: "env \<Rightarrow> full_state \<Rightarrow> full_state" where
  "update_streak env st =
     (case getItem (localStorage st) (js ''lastActiveDate'') of
        Inl e \<Rightarrow> emit Console_warn st
      | Inr lastActive \<Rightarrow>
          (case getItem (localStorage st) (js ''streakCount'') of
             Inl e \<Rightarrow> emit Console_warn st
           | Inr item \<Rightarrow>
               let count0 = stored_count item;
                   (count, st1) =
                     (if lastActive = None \<or> lastActive = Some [] then (1, st)
                      else if lastActive = Some (todayStr env) then (count0, st)
                      else if lastActive = Some (yesterdayStr env) then
                        (count0 + 1, emit (Posthog_capture (js ''streak_incremented'')) st)
                      else (1, st))
               in (case setItem (localStorage st1) (js ''lastActiveDate'') (todayStr env) of
                     Inl e \<Rightarrow> emit Console_warn st1
                   | Inr ls1 \<Rightarrow>
                       (case setItem ls1 (js ''streakCount'') (String_of count) of
                          Inl e \<Rightarrow> emit Console_warn (st1\<lparr>localStorage := ls1\<rparr>)
                        | Inr ls2 \<Rightarrow> st1\<lparr>localStorage := ls2, streak := count\<rparr>))))"

text \<open>The second \<open>try\<close> block, "Save resume pointer"; its \<open>catch\<close> is empty.\<close>

definition save_resume :: "env \<Rightarrow> jsstring \<Rightarrow> full_state \<Rightarrow> full_state" where
  "save_resume env q st =
     (case which_book st of
        None \<Rightarrow> st
      | Some which \<Rightarrow>
          let session = \<lparr>bookId = book_id which, question = q, bookTitle = Some (title which)\<rparr>
          in (case setItem (localStorage st) (js ''lastSession'') (JSON_stringify env session) of
                Inl e \<Rightarrow> st
              | Inr ls \<Rightarrow> st\<lparr>localStorage := ls, resumeSession := Some session\<rparr>))"

text \<open>
  What the call sites pass as \<open>overrideText\<close>: nothing (\<open>handleSend()\<close> on Ctrl+Enter), a
  string (\<open>handleSend(p)\<close> for a prompt or a follow-up chip), or the click event
  (\<open>onClick={handleSend}\<close>), which is not nullish and has no \<open>trim\<close> method.
\<close>

datatype send_arg = NoArgument | Text jsstring | ClickEvent

text \<open>\<open>(overrideText ?? query).trim()\<close>\<close>

definition question_of :: "send_arg \<Rightarrow> jsstring \<Rightarrow> js_error + jsstring" where
  "question_of overrideText qry =
     (case overrideText of
        NoArgument \<Rightarrow> Inr (trim qry)
      | Text t \<Rightarrow> Inr (trim t)
      | ClickEvent \<Rightarrow> Inl TypeError)"

definition handleSend :: "env \<Rightarrow> send_arg \<Rightarrow> full_state \<Rightarrow> js_error + full_state" where
  "handleSend env overrideText st =
     (case question_of overrideText (query st) of
        Inl e \<Rightarrow> Inl e
      | Inr q \<Rightarrow>
          if q = [] then Inr st
          else
            let userMsg = \<lparr>msg_id = userMsg_uuid env, role = User, content = q,
                           ts = userMsg_now env\<rparr>;
                st1 = setMessages (\<lambda>m. m @ [userMsg]) st;
                st2 = st1\<lparr>query := []\<rparr>;
                st3 = emit (Posthog_capture (js ''ask_sent'')) st2;
                st4 = update_streak env st3;
                st5 = save_resume env q st4
            in (case which_book st of
                  None \<Rightarrow> Inr st5
                | Some which \<Rightarrow>
                    let bookMsgId = bookMsg_uuid env;
                        initBookMsg = \<lparr>msg_id = bookMsgId, role = Book, content = [],
                                       ts = initBookMsg_now env\<rparr>;
                        st6 = setMessages (\<lambda>m. m @ [initBookMsg]) st5;
                        st7 = emit (Fetch_ask (book_id which) q) st6
                    in (case ask_stream (ask_result env) of
                          (deltas, thrown) \<Rightarrow>
                            let st8 = setMessages (appendDeltas bookMsgId deltas) st7
                            in (case thrown of
                                  Some e \<Rightarrow>
                                    let errorMsg = \<lparr>msg_id = errorMsg_uuid env, role = Book,
                                                     content = fallback_text,
                                                     ts = errorMsg_now env\<rparr>
                                    in Inr (setMessages (\<lambda>m. m @ [errorMsg])
                                              (emit Sentry_captureException
                                                 (emit Console_error st8)))
                                | None \<Rightarrow>
                                    Inr (emit (Posthog_capture (js ''ask_success'')) st8)))))"

section \<open>Rendering the transcript\<close>

text \<open>
  The label of a bubble, \<open>m.role==='user' ? 'You' : (selected?.title ?? books[0]?.title ?? 'Book')\<close>,
  and the list of bubbles of \<open>messages.map\<close>.
\<close>

definition speaker :: "'a app_state_scheme \<Rightarrow> chat_msg \<Rightarrow> jsstring" where
  "speaker st m =
     (if role m = User then js ''You''
      else (case selected st of
              Some b \<Rightarrow> title b
            | None \<Rightarrow> (case books st of [] \<Rightarrow> js ''Book'' | b # _ \<Rightarrow> title b)))"

definition transcript :: "'a app_state_scheme \<Rightarrow> (jsstring \<times> jsstring) list" where
  "transcript st = map (\<lambda>m. (speaker st m, content m)) (messages st)"

text \<open>The requests to the ask endpoint among the recorded calls.\<close>

fun ask_requests :: "effect list \<Rightarrow> (jsstring \<times> jsstring) list" where
  "ask_requests [] = []"
| "ask_requests (Fetch_ask b q # es) = (b, q) # ask_requests es"
| "ask_requests (e # es) = ask_requests es"

section \<open>Frames and event types, as the specification words them\<close>

text \<open>
  The data lines and the event type of a frame at the end of the \<open>for\<close> loop.
\<close>

definition frame_dataLines :: "jsstring \<Rightarrow> jsstring list" where
  "frame_dataLines chunk = fst (scan_lines (split_nl chunk) [] None)"

definition frame_eventType :: "jsstring \<Rightarrow> jsstring option" where
  "frame_eventType chunk = snd (scan_lines (split_nl chunk) [] None)"

text \<open>
  Specification, section 3 and 4.2: frame boundaries are always the two-character sequence
  of two line feeds; a complete frame is the text before such a delimiter, and text after
  the last delimiter is a partial frame, not a frame. One pass over the text, left to right.
\<close>

fun spec_frames_from :: "jsstring \<Rightarrow> jsstring \<Rightarrow> jsstring list" where
  "spec_frames_from cur (a # b # cs) =
     (if a = LF \<and> b = LF then cur # spec_frames_from [] cs
      else spec_frames_from (cur @ [a]) (b # cs))"
| "spec_frames_from cur cs = []"

definition spec_frames :: "jsstring \<Rightarrow> jsstring list" where
  "spec_frames txt = spec_frames_from [] txt"

text \<open>
  Specification, section 4.2: for each line beginning with \<open>event:\<close>, the trimmed remainder
  is the frame's event type, and the last occurrence wins; without such a line the event
  type is absent.
\<close>

definition spec_event_type :: "jsstring \<Rightarrow> jsstring option" where
  "spec_event_type frame =
     (let es = filter (\<lambda>line. startsWith line (js ''event:'')) (split_nl frame)
      in if es = [] then None else Some (trim (drop 6 (last es))))"

text \<open>
  Specification, section 4.2: for each line beginning with \<open>data:\<close>, the trimmed remainder
  is recorded, in line order.
\<close>

definition spec_data_lines :: "jsstring \<Rightarrow> jsstring list" where
  "spec_data_lines frame =
     map (\<lambda>line. trim (drop 5 line))
       (filter (\<lambda>line. startsWith line (js ''data:'')) (split_nl frame))"

text \<open>
  The value of a data line by the rule of Server-Sent Events: the line without its five
  characters \<open>data:\<close> and without one whitespace code unit directly after them, if there
  is one; and the values of a frame's data lines, in line order.
\<close>

definition data_field_value :: "jsstring \<Rightarrow> jsstring" where
  "data_field_value line =
     (case drop 5 line of [] \<Rightarrow> [] | c # rest \<Rightarrow> if is_space c then rest else c # rest)"

definition data_field_values :: "jsstring \<Rightarrow> jsstring list" where
  "data_field_values frame =
     map data_field_value (filter (\<lambda>line. startsWith line (js ''data:'')) (split_nl frame))"

section \<open>Sample inputs\<close>

text \<open>
  A stream cut inside a line and inside the delimiter: a frame \<open>data: Hello\<close>, a frame with
  \<open>event: chunk\<close> and two data lines, and a last frame that never gets its blank line.
\<close>

definition sample_reads :: "jsstring list" where
  "sample_reads =
     [js ''data: Hel'',
      js ''lo'' @ [LF],
      [LF] @ js ''event: chunk'' @ [LF] @ js ''data: Wor'' @ [LF] @ js ''data: ld'' @ [LF, LF]
        @ js ''data: lost'']"

definition sample_frame :: jsstring where
  "sample_frame = js ''event: chunk'' @ [LF] @ js ''data: x'' @ [LF] @ js ''data: y''"

text \<open>A transcript of two messages: a question and an answer that is being streamed.\<close>

definition sample_user_msg :: chat_msg where
  "sample_user_msg = \<lparr>msg_id = js ''u1'', role = User, content = js ''hi'', ts = 1\<rparr>"

definition sample_book_msg :: chat_msg where
  "sample_book_msg = \<lparr>msg_id = js ''b1'', role = Book, content = js ''He'', ts = 2\<rparr>"

text \<open>
  A catalog of one book, a question typed with spaces around it, a streak of four days
  last touched yesterday, and a platform whose answer stream delivers one frame and half
  of a second one before a read throws.  \<open>JSON_stringify\<close> is a stand-in that keeps the
  book id and the question.
\<close>

definition sample_book :: book where
  "sample_book = \<lparr>book_id = js ''bk1'', title = js ''Dune'', author = js ''Herbert'',
     theme = None, color = None, cover = None, tagline = None\<rparr>"

definition sample_env :: env where
  "sample_env =
     \<lparr>userMsg_uuid = js ''u2'', bookMsg_uuid = js ''b2'', errorMsg_uuid = js ''e2'',
      userMsg_now = 10, initBookMsg_now = 11, errorMsg_now = 12,
      todayStr = js ''2024-03-02'', yesterdayStr = js ''2024-03-01'',
      ask_result =
        Resolves True (Some (Body [js ''data: Hi'' @ [LF, LF], js ''data: the''] ReadThrows)),
      JSON_stringify = (\<lambda>s. bookId s @ js '':'' @ question s)\<rparr>"

definition sample_app :: app_state where
  "sample_app = \<lparr>books = [sample_book], selected = None, query = js '' hi '',
     messages = [], search = [], trace = []\<rparr>"

definition sample_full :: full_state where
  "sample_full = \<lparr>books = [sample_book], selected = None, query = js '' hi '',
     messages = [], search = [], trace = [],
     showJournalDrawer = False, streak = 4, resumeSession = None, dailyPrompts = [],
     localStorage =
       \<lparr>items = [(js ''lastActiveDate'', js ''2024-03-01''), (js ''streakCount'', js ''4'')],
        getItem_throws = False, setItem_throws = False\<rparr>\<rparr>"

text \<open>
  The same platform with answer streams that end well: the sample reads, a stream of one
  frame whose data line ends with a space, and a stream whose middle frame is a \<open>ping\<close>.
\<close>

definition sample_stream_env :: env where
  "sample_stream_env =
     sample_env\<lparr>ask_result := Resolves True (Some (Body sample_reads EndOfData))\<rparr>"

definition sample_space_env :: env where
  "sample_space_env =
     sample_env\<lparr>ask_result := Resolves True (Some (Body [js ''data: x '' @ [LF, LF]] EndOfData))\<rparr>"

definition sample_guard_reads :: "jsstring list" where
  "sample_guard_reads =
     [js ''data: a'' @ [LF, LF] @ js ''event: ping'' @ [LF] @ js ''data: x'' @ [LF],
      [LF] @ js ''event: chunk'' @ [LF] @ js ''data: b'' @ [LF, LF]]"

definition sample_guard_env :: env where
  "sample_guard_env =
     sample_env\<lparr>ask_result := Resolves True (Some (Body sample_guard_reads EndOfData))\<rparr>"

section \<open>Properties of the read loops\<close>

declare drain.simps [simp del]

lemma indexOf_nlnl_append:
  "indexOf_nlnl a = Some i \<Longrightarrow> indexOf_nlnl (a @ b) = Some i"
  by (induction a arbitrary: i rule: indexOf_nlnl.induct) (auto split: if_splits)

text \<open>Draining a text in two pieces: the frames of the first piece, then the rest.\<close>

lemma drain_append:
  "drain (a @ b) out = (case drain a out of (rest, out') \<Rightarrow> drain (rest @ b) out')"
proof (induction a out rule: drain.induct)
  case (1 buffer forwarded)
  show ?case
  proof (cases "indexOf_nlnl buffer")
    case None
    then show ?thesis by (simp add: drain.simps [of buffer])
  next
    case (Some idx)
    from indexOf_nlnl_bound [OF Some] have len: "idx + 2 \<le> length buffer" .
    have ix: "indexOf_nlnl (buffer @ b) = Some idx"
      by (rule indexOf_nlnl_append [OF Some])
    show ?thesis
      using "1.IH" [OF Some] len
      by (simp add: drain.simps [of buffer] drain.simps [of "buffer @ b"] Some ix)
  qed
qed

lemma read_loop_drain:
  "read_loop reads EndOfData buffer out = drain (buffer @ concat reads) out"
proof (induction reads arbitrary: buffer out)
  case Nil
  show ?case by simp
next
  case (Cons v reads)
  obtain rest out' where d: "drain (buffer @ v) out = (rest, out')"
    by (cases "drain (buffer @ v) out")
  have "read_loop (v # reads) EndOfData buffer out = drain (rest @ concat reads) out'"
    by (simp add: d Cons.IH)
  also have "\<dots> = drain ((buffer @ v) @ concat reads) out"
    by (simp only: drain_append [of "buffer @ v" "concat reads" out] d prod.case)
  finally show ?case by simp
qed

text \<open>Two frames \<open>data: Hello\<close> and \<open>data: World\<close> give the deltas \<open>Hello\<close> and \<open>World\<close>.\<close>

lemma stream_deltas_hello_world:
  "stream_deltas [js ''data: Hello'' @ [LF, LF], js ''data: World'' @ [LF, LF]]
     = [js ''Hello'', js ''World'']"
  by code_simp

text \<open>
  Claim C2. However the text of a stream is cut into reads (in the middle of a frame, of a
  line, or of the blank-line delimiter), the read loop forwards the same deltas, and so the
  same concatenated text, as for the whole text in a single read, and it ends with the same
  unfinished frame in the buffer.
\<close>

theorem chunking_invariant:
  "stream_deltas reads = stream_deltas [concat reads]
   \<and> concat (stream_deltas reads) = concat (stream_deltas [concat reads])
   \<and> fst (read_loop reads EndOfData [] []) = fst (read_loop [concat reads] EndOfData [] [])"
  by (simp add: stream_deltas_def read_loop_drain)

section \<open>Properties of the frame parser\<close>

lemma startsWith_event_not_data:
  "startsWith line (js ''event:'') \<Longrightarrow> \<not> startsWith line (js ''data:'')"
  by (cases line) (auto simp: startsWith_def js_def)

lemma trim_skip_space: "is_space c \<Longrightarrow> trim (c # s) = trim s"
  by (simp add: trim_def)

text \<open>Trimming makes the optional whitespace of the \<open>event:\<close> pattern irrelevant.\<close>

lemma replace_field_event_trim:
  "startsWith line (js ''event:'') \<Longrightarrow>
     trim (replace_field (js ''event:'') line) = trim (drop 6 line)"
proof -
  assume sw: "startsWith line (js ''event:'')"
  have len: "length (js ''event:'') = 6" by (simp add: js_def)
  show ?thesis
  proof (cases "drop 6 line")
    case Nil
    then show ?thesis using sw by (simp add: replace_field_def len)
  next
    case (Cons c rest)
    then show ?thesis using sw by (simp add: replace_field_def len trim_skip_space)
  qed
qed

text \<open>The loop over the lines, in closed form.\<close>

lemma scan_lines_eq:
  "scan_lines ls ds ev =
     (ds @ map (replace_field (js ''data:'')) (filter (\<lambda>l. startsWith l (js ''data:'')) ls),
      (let es = filter (\<lambda>l. startsWith l (js ''event:'')) ls
       in if es = [] then ev else Some (trim (drop 6 (last es)))))"
proof (induction ls arbitrary: ds ev)
  case Nil
  show ?case by simp
next
  case (Cons l ls)
  show ?case
  proof (cases "startsWith l (js ''event:'')")
    case True
    then show ?thesis
      using startsWith_event_not_data [OF True]
      by (simp add: Cons.IH Let_def replace_field_event_trim)
  next
    case False
    then show ?thesis
      by (simp add: Cons.IH Let_def)
  qed
qed

lemma frame_dataLines_eq:
  "frame_dataLines chunk =
     map (replace_field (js ''data:''))
       (filter (\<lambda>l. startsWith l (js ''data:'')) (split_nl chunk))"
  by (simp add: frame_dataLines_def scan_lines_eq)

lemma frame_eventType_eq: "frame_eventType chunk = spec_event_type chunk"
  by (simp add: frame_eventType_def spec_event_type_def scan_lines_eq)

lemma frame_delta_eq:
  "frame_delta chunk =
     (if frame_dataLines chunk \<noteq> []
         \<and> (frame_eventType chunk = None \<or> frame_eventType chunk = Some (js ''chunk''))
      then Some (join_nl (frame_dataLines chunk)) else None)"
  by (simp add: frame_delta_def frame_dataLines_def frame_eventType_def split: prod.splits)

text \<open>The single pass of the specification cuts where \<open>indexOf\<close> finds the delimiter.\<close>

lemma spec_frames_from_indexOf:
  "spec_frames_from cur s =
     (case indexOf_nlnl s of
        None \<Rightarrow> []
      | Some i \<Rightarrow> (cur @ take i s) # spec_frames_from [] (drop (i + 2) s))"
proof (induction cur s rule: spec_frames_from.induct)
  case (1 cur a b cs)
  then show ?case
    by (cases "indexOf_nlnl (b # cs)") auto
qed simp_all

lemma drain_frames:
  "snd (drain buffer out) = out @ List.map_filter frame_delta (spec_frames buffer)"
proof (induction buffer out rule: drain.induct)
  case (1 buffer forwarded)
  show ?case
  proof (cases "indexOf_nlnl buffer")
    case None
    then show ?thesis
      by (simp add: drain.simps [of buffer] spec_frames_def
            spec_frames_from_indexOf [of "[]" buffer])
  next
    case (Some idx)
    show ?thesis
      using "1.IH" [OF Some]
      by (simp add: drain.simps [of buffer] Some spec_frames_def
            spec_frames_from_indexOf [of "[]" buffer] split: option.splits)
  qed
qed

lemma concat_map_filter_deltas:
  assumes "\<forall>f\<in>set fs. spec_event_type f = None \<or> spec_event_type f = Some (js ''chunk'')"
  shows "concat (List.map_filter frame_delta fs) =
           concat (map (\<lambda>f. join_nl (frame_dataLines f)) fs)"
  using assms
  by (induction fs) (auto simp: frame_delta_eq frame_eventType_eq)

text \<open>
  Claim C6, as stated, fails: the line \<open>data: x \<close> is recorded with its trailing space,
  where the trimmed remainder would be \<open>x\<close>.
\<close>

theorem data_line_not_trimmed:
  "frame_dataLines (js ''data: x '') = [js ''x '']
   \<and> frame_dataLines (js ''data: x '') \<noteq> [trim (drop 5 (js ''data: x ''))]"
  by code_simp

text \<open>
  Claim C6, amended. The data lines recorded for a frame are, in the order of the lines,
  the lines beginning with \<open>data:\<close>, each without that prefix and without at most one
  whitespace code unit directly after it; nothing else is removed.
\<close>

theorem data_lines_recorded:
  "frame_dataLines chunk =
     map (replace_field (js ''data:''))
       (filter (\<lambda>l. startsWith l (js ''data:'')) (split_nl chunk))
   \<and> replace_field (js ''data:'') (js ''data:'' @ r) =
       (case r of [] \<Rightarrow> [] | c # rest \<Rightarrow> if is_space c then rest else c # rest)"
  by (simp add: frame_dataLines_eq replace_field_def startsWith_def)

section \<open>Properties of the delta updater\<close>

text \<open>
  Claim C8. A delta for an id that no message of the list has leaves the list as it is:
  nothing is raised (the updater is a total function) and no message is created.
\<close>

theorem appendDelta_absent:
  "\<forall>msg\<in>set m. msg_id msg \<noteq> bookMsgId \<Longrightarrow> appendDelta bookMsgId delta m = m"
  by (induction m) (simp_all add: appendDelta_def)

theorem appendDelta_absent_witness:
  "js ''zz'' \<notin> set (map msg_id [sample_user_msg, sample_book_msg])
   \<and> appendDelta (js ''zz'') (js ''llo'') [sample_user_msg, sample_book_msg]
       = [sample_user_msg, sample_book_msg]"
proof -
  have h: "\<forall>msg\<in>set [sample_user_msg, sample_book_msg]. msg_id msg \<noteq> js ''zz''"
    by (simp add: sample_user_msg_def sample_book_msg_def js_def)
  show ?thesis using h appendDelta_absent [OF h] by auto
qed

lemma appendDelta_nth:
  "k < length m \<Longrightarrow>
     appendDelta i d m ! k =
       (if msg_id (m ! k) = i then (m ! k)\<lparr>content := content (m ! k) @ d\<rparr> else m ! k)"
  by (simp add: appendDelta_def)

text \<open>
  Claim C10. One delta application keeps the length of the list and the id, role and
  timestamp at every position; a message with another id is unchanged; a message with the
  id of the open message gets the delta at the end of its content and nothing else; and
  when the ids of the list are distinct at most one position changes.
\<close>

theorem appendDelta_frame:
  "length (appendDelta bookMsgId delta m) = length m
   \<and> map msg_id (appendDelta bookMsgId delta m) = map msg_id m
   \<and> map role (appendDelta bookMsgId delta m) = map role m
   \<and> map ts (appendDelta bookMsgId delta m) = map ts m
   \<and> (\<forall>k<length m. msg_id (m ! k) \<noteq> bookMsgId \<longrightarrow> appendDelta bookMsgId delta m ! k = m ! k)
   \<and> (\<forall>k<length m. msg_id (m ! k) = bookMsgId \<longrightarrow>
         appendDelta bookMsgId delta m ! k = (m ! k)\<lparr>content := content (m ! k) @ delta\<rparr>)
   \<and> (distinct (map msg_id m) \<longrightarrow>
         card {k. k < length m \<and> appendDelta bookMsgId delta m ! k \<noteq> m ! k} \<le> 1)"
proof -
  have len: "length (appendDelta bookMsgId delta m) = length m"
    by (simp add: appendDelta_def)
  have ids: "map msg_id (appendDelta bookMsgId delta m) = map msg_id m"
    by (induction m) (simp_all add: appendDelta_def)
  have roles: "map role (appendDelta bookMsgId delta m) = map role m"
    by (induction m) (simp_all add: appendDelta_def)
  have tss: "map ts (appendDelta bookMsgId delta m) = map ts m"
    by (induction m) (simp_all add: appendDelta_def)
  have one: "card {k. k < length m \<and> appendDelta bookMsgId delta m ! k \<noteq> m ! k} \<le> 1"
    if dist: "distinct (map msg_id m)"
  proof -
    let ?A = "{k. k < length m \<and> appendDelta bookMsgId delta m ! k \<noteq> m ! k}"
    have fin: "finite ?A" by simp
    have same: "a = b" if "a \<in> ?A" "b \<in> ?A" for a b
    proof -
      from that have a: "a < length m" "msg_id (m ! a) = bookMsgId"
        and b: "b < length m" "msg_id (m ! b) = bookMsgId"
        by (auto simp: appendDelta_nth split: if_splits)
      have eq: "map msg_id m ! a = map msg_id m ! b"
        using a b by simp
      have "a < length (map msg_id m)" "b < length (map msg_id m)"
        using a(1) b(1) by simp_all
      with dist eq show "a = b"
        by (simp only: nth_eq_iff_index_eq)
    qed
    then show ?thesis
      using fin by (simp add: card_le_Suc0_iff_eq)
  qed
  show ?thesis
    using len ids roles tss one by (simp add: appendDelta_nth)
qed

theorem appendDelta_frame_witness:
  "distinct (map msg_id [sample_user_msg, sample_book_msg])
   \<and> appendDelta (js ''b1'') (js ''llo'') [sample_user_msg, sample_book_msg]
       = [sample_user_msg, sample_book_msg\<lparr>content := js ''Hello''\<rparr>]
   \<and> card {k. k < length [sample_user_msg, sample_book_msg]
              \<and> appendDelta (js ''b1'') (js ''llo'') [sample_user_msg, sample_book_msg] ! k
                  \<noteq> [sample_user_msg, sample_book_msg] ! k} \<le> 1"
proof -
  have h: "distinct (map msg_id [sample_user_msg, sample_book_msg])"
    by (simp add: sample_user_msg_def sample_book_msg_def js_def)
  have v: "appendDelta (js ''b1'') (js ''llo'') [sample_user_msg, sample_book_msg]
             = [sample_user_msg, sample_book_msg\<lparr>content := js ''Hello''\<rparr>]"
    by (simp add: appendDelta_def sample_user_msg_def sample_book_msg_def js_def)
  show ?thesis
    using h v appendDelta_frame [of "js ''b1''" "js ''llo''" "[sample_user_msg, sample_book_msg]"]
    by blast
qed

section \<open>Properties of \<open>handleSend\<close>\<close>

lemma trim_empty_iff: "trim s = [] \<longleftrightarrow> (\<forall>c\<in>set s. is_space c)"
proof
  assume "\<forall>c\<in>set s. is_space c"
  then show "trim s = []" by (auto simp: trim_def dest: set_dropWhileD)
next
  assume t: "trim s = []"
  show "\<forall>c\<in>set s. is_space c"
  proof (rule ccontr)
    assume "\<not> (\<forall>c\<in>set s. is_space c)"
    then have ne: "dropWhile is_space s \<noteq> []" by (simp add: dropWhile_eq_Nil_conv)
    then have "\<not> is_space (hd (dropWhile is_space s))" by (rule hd_dropWhile)
    moreover have "hd (dropWhile is_space s) \<in> set (rev (dropWhile is_space s))"
      using ne by simp
    ultimately have "dropWhile is_space (rev (dropWhile is_space s)) \<noteq> []"
      by (auto simp: dropWhile_eq_Nil_conv)
    with t show False by (simp add: trim_def)
  qed
qed

text \<open>
  Claim C9. A question that is empty or all whitespace makes \<open>handleSend\<close> return at once in
  both versions of the component, for the typed text and for a text passed to it: the
  state is the one before the call, so no message is added, no call is recorded and nothing
  is written to \<open>localStorage\<close>.
\<close>

theorem blank_question_noop:
  "((\<forall>c\<in>set (query st). is_space c) \<longrightarrow> handleSend_App env st = st)
   \<and> ((\<forall>c\<in>set (query fs). is_space c) \<longrightarrow> handleSend env NoArgument fs = Inr fs)
   \<and> ((\<forall>c\<in>set t. is_space c) \<longrightarrow> handleSend env (Text t) fs = Inr fs)"
  by (simp add: handleSend_App_def handleSend_def question_of_def trim_empty_iff)

theorem blank_question_noop_witness:
  "handleSend_App sample_env (sample_app\<lparr>query := [0x20, 0x09]\<rparr>) = sample_app\<lparr>query := [0x20, 0x09]\<rparr>
   \<and> handleSend sample_env NoArgument (sample_full\<lparr>query := [0x20, 0x09]\<rparr>)
       = Inr (sample_full\<lparr>query := [0x20, 0x09]\<rparr>)
   \<and> handleSend sample_env (Text [0x0A, 0x20]) sample_full = Inr sample_full"
proof -
  have a: "\<forall>c\<in>set (query (sample_app\<lparr>query := [0x20, 0x09]\<rparr>)). is_space c"
    by (simp add: is_space_def)
  have b: "\<forall>c\<in>set (query (sample_full\<lparr>query := [0x20, 0x09]\<rparr>)). is_space c"
    by (simp add: is_space_def)
  have c: "\<forall>c\<in>set [0x0A, 0x20 :: jschar]. is_space c"
    by (simp add: is_space_def)
  show ?thesis
    using a b c
      blank_question_noop [of "sample_app\<lparr>query := [0x20, 0x09]\<rparr>" sample_env
        "sample_full\<lparr>query := [0x20, 0x09]\<rparr>" "[0x0A, 0x20]"]
      blank_question_noop [of "sample_app\<lparr>query := [0x20, 0x09]\<rparr>" sample_env
        sample_full "[0x0A, 0x20]"]
    by blast
qed

text \<open>The click handler of the later version passes the event, which cannot be trimmed.\<close>

lemma click_event_rejects: "handleSend env ClickEvent st = Inl TypeError"
  by (simp add: handleSend_def question_of_def)

lemma ask_requests_append: "ask_requests (xs @ ys) = ask_requests xs @ ask_requests ys"
  by (induction xs rule: ask_requests.induct) simp_all

lemma update_streak_frame:
  "messages (update_streak env st) = messages st"
  "books (update_streak env st) = books st"
  "selected (update_streak env st) = selected st"
  "query (update_streak env st) = query st"
  "ask_requests (trace (update_streak env st)) = ask_requests (trace st)"
  by (simp_all add: update_streak_def getItem_def setItem_def emit_def Let_def ask_requests_append)

lemma save_resume_frame:
  "messages (save_resume env q st) = messages st"
  "books (save_resume env q st) = books st"
  "selected (save_resume env q st) = selected st"
  "query (save_resume env q st) = query st"
  "trace (save_resume env q st) = trace st"
  by (simp_all add: save_resume_def setItem_def Let_def split: option.splits)

text \<open>
  With an empty catalog and no selected book, a send with a non-blank question that is
  typed and sent from the keyboard, or passed as a text, completes without an exception in
  both versions: the user message is appended, no request to the ask endpoint is recorded,
  and the transcript renders with the new bubble labelled \<open>You\<close>.
\<close>

lemma empty_catalog_send:
  assumes "books st = []" "selected st = None" "books fs = []" "selected fs = None"
  shows "(trim (query st) \<noteq> [] \<longrightarrow>
            handleSend_App env st
              = st\<lparr>messages := messages st @ [\<lparr>msg_id = userMsg_uuid env, role = User,
                    content = trim (query st), ts = userMsg_now env\<rparr>], query := []\<rparr>
            \<and> transcript (handleSend_App env st) = transcript st @ [(js ''You'', trim (query st))])
         \<and> (question_of overrideText (query fs) = Inr q \<and> q \<noteq> [] \<longrightarrow>
              (\<exists>fs'. handleSend env overrideText fs = Inr fs'
                 \<and> messages fs' = messages fs @ [\<lparr>msg_id = userMsg_uuid env, role = User,
                      content = q, ts = userMsg_now env\<rparr>]
                 \<and> ask_requests (trace fs') = ask_requests (trace fs)
                 \<and> transcript fs' = transcript fs @ [(js ''You'', q)]))"
proof -
  have w1: "which_book st = None" using assms by (simp add: which_book_def)
  have w2: "which_book fs = None" using assms by (simp add: which_book_def)
  have app: "trim (query st) \<noteq> [] \<Longrightarrow>
            handleSend_App env st
              = st\<lparr>messages := messages st @ [\<lparr>msg_id = userMsg_uuid env, role = User,
                    content = trim (query st), ts = userMsg_now env\<rparr>], query := []\<rparr>"
    by (simp add: handleSend_App_def w1 setMessages_def Let_def)
  have full: "\<exists>fs'. handleSend env overrideText fs = Inr fs'
                 \<and> messages fs' = messages fs @ [\<lparr>msg_id = userMsg_uuid env, role = User,
                      content = q, ts = userMsg_now env\<rparr>]
                 \<and> ask_requests (trace fs') = ask_requests (trace fs)
                 \<and> transcript fs' = transcript fs @ [(js ''You'', q)]"
    if "question_of overrideText (query fs) = Inr q" "q \<noteq> []"
    using that assms(3,4)
    by (simp add: handleSend_def w2 Let_def update_streak_frame save_resume_frame
          setMessages_def emit_def ask_requests_append transcript_def speaker_def)
  show ?thesis
    using app full assms(1,2) by (simp add: transcript_def speaker_def)
qed

lemma empty_catalog_send_example:
  "books (sample_app\<lparr>books := []\<rparr>) = [] \<and> selected (sample_app\<lparr>books := []\<rparr>) = None
   \<and> question_of (Text (js ''why?'')) (query (sample_full\<lparr>books := []\<rparr>)) = Inr (js ''why?'')
   \<and> transcript (handleSend_App sample_env (sample_app\<lparr>books := []\<rparr>)) = [(js ''You'', js ''hi'')]
   \<and> (\<exists>fs'. handleSend sample_env (Text (js ''why?'')) (sample_full\<lparr>books := []\<rparr>) = Inr fs'
         \<and> messages fs' = [\<lparr>msg_id = js ''u2'', role = User, content = js ''why?'', ts = 10\<rparr>]
         \<and> ask_requests (trace fs') = []
         \<and> transcript fs' = [(js ''You'', js ''why?'')])"
proof -
  let ?E = "sample_app\<lparr>books := []\<rparr>" and ?F = "sample_full\<lparr>books := []\<rparr>"
  have h: "books ?E = []" "selected ?E = None" "books ?F = []" "selected ?F = None"
    by (simp_all add: sample_app_def sample_full_def)
  have q: "question_of (Text (js ''why?'')) (query ?F) = Inr (js ''why?'')" "js ''why?'' \<noteq> []"
    by code_simp+
  have n: "trim (query ?E) \<noteq> []" "trim (query ?E) = js ''hi''"
    by code_simp+
  have e: "userMsg_uuid sample_env = js ''u2''" "userMsg_now sample_env = 10"
    "messages ?F = []" "ask_requests (trace ?F) = []" "transcript ?F = []" "transcript ?E = []"
    by (simp_all add: sample_env_def sample_full_def sample_app_def transcript_def)
  note t = empty_catalog_send [OF h, of sample_env "Text (js ''why?'')" "js ''why?''"]
  from t n(1) have "transcript (handleSend_App sample_env ?E)
      = transcript ?E @ [(js ''You'', trim (query ?E))]"
    by blast
  then have app: "transcript (handleSend_App sample_env ?E) = [(js ''You'', js ''hi'')]"
    by (simp only: e n append_Nil)
  from t q obtain fs' where f: "handleSend sample_env (Text (js ''why?'')) ?F = Inr fs'"
    "messages fs' = messages ?F @ [\<lparr>msg_id = userMsg_uuid sample_env, role = User,
        content = js ''why?'', ts = userMsg_now sample_env\<rparr>]"
    "ask_requests (trace fs') = ask_requests (trace ?F)"
    "transcript fs' = transcript ?F @ [(js ''You'', js ''why?'')]"
    by blast
  have "messages fs' = [\<lparr>msg_id = js ''u2'', role = User, content = js ''why?'', ts = 10\<rparr>]"
    "ask_requests (trace fs') = []" "transcript fs' = [(js ''You'', js ''why?'')]"
    using f(2,3,4) by (simp_all only: e append_Nil)
  with f(1) h(1,2) q(1) app show ?thesis by blast
qed

text \<open>
  Claim C7. In the later version the Ask buttons pass the click event to \<open>handleSend\<close>.
  With an empty catalog, no selected book and the question \<open>hi\<close> typed, that call ends
  with a \<open>TypeError\<close> and appends nothing, where the send of \<open>src/App.tsx\<close> in the same
  state appends the user message and returns.
\<close>

theorem ask_button_throws:
  "handleSend sample_env ClickEvent (sample_full\<lparr>books := []\<rparr>) = Inl TypeError
   \<and> map content (messages (handleSend_App sample_env (sample_app\<lparr>books := []\<rparr>))) = [js ''hi'']"
  by code_simp

lemma ask_stream_thrown: "snd (ask_stream r) \<noteq> None \<longleftrightarrow> transport_fails r"
  by (cases r rule: transport_fails.cases) (simp_all add: ask_stream_def)

lemma appendDelta_Nil [simp]: "appendDelta i d [] = []"
  by (simp add: appendDelta_def)

lemma appendDeltas_closed:
  "appendDeltas i ds m =
     map (\<lambda>msg. if msg_id msg = i then msg\<lparr>content := content msg @ concat ds\<rparr> else msg) m"
proof (induction ds arbitrary: m)
  case Nil
  show ?case by (simp add: appendDeltas_def map_idI)
next
  case (Cons d ds)
  have "appendDeltas i (d # ds) m = appendDeltas i ds (appendDelta i d m)"
    by (simp add: appendDeltas_def)
  also have "\<dots> = map (\<lambda>msg. if msg_id msg = i then msg\<lparr>content := content msg @ concat ds\<rparr> else msg)
                     (appendDelta i d m)"
    by (rule Cons.IH)
  also have "\<dots> = map (\<lambda>msg. if msg_id msg = i then msg\<lparr>content := content msg @ concat (d # ds)\<rparr> else msg) m"
    by (simp add: appendDelta_def)
  finally show ?case .
qed

lemma appendDeltas_open:
  assumes "i \<notin> msg_id ` set m" "msg_id u \<noteq> i" "msg_id b = i"
  shows "appendDeltas i ds (m @ [u, b]) = m @ [u, b\<lparr>content := content b @ concat ds\<rparr>]"
proof -
  have "map (\<lambda>msg. if msg_id msg = i then msg\<lparr>content := content msg @ concat ds\<rparr> else msg) m = m"
    using assms(1) by (intro map_idI) auto
  then show ?thesis
    using assms(2,3) by (simp add: appendDeltas_closed)
qed

text \<open>
  Claim C1, as stated, fails. After one delta and a read that throws, the open message
  keeps the streamed text \<open>Hi\<close>; after a response that is not ok it stays empty. In both
  cases the fallback text is the content of a third message.
\<close>

theorem failure_keeps_partial_content:
  "map content (messages (handleSend_App sample_env sample_app))
     = [js ''hi'', js ''Hi'', fallback_text]
   \<and> map_sum id (map content \<circ> messages) (handleSend sample_env NoArgument sample_full)
     = Inr [js ''hi'', js ''Hi'', fallback_text]
   \<and> map content
       (messages (handleSend_App (sample_env\<lparr>ask_result := Resolves False None\<rparr>) sample_app))
     = [js ''hi'', [], fallback_text]
   \<and> js ''Hi'' \<noteq> fallback_text \<and> [] \<noteq> fallback_text"
  by code_simp

text \<open>
  Claim C1, amended. When the transport fails and the id of the open message is fresh,
  \<open>handleSend\<close> completes with three messages added to the transcript: the question, the
  open message holding exactly the deltas applied before the failure (the empty string when
  there were none), and last a new book message whose content is the fixed fallback text.
\<close>

theorem failure_appends_fallback:
  assumes "transport_fails (ask_result env)" "userMsg_uuid env \<noteq> bookMsg_uuid env"
  shows "(trim (query st) \<noteq> [] \<and> which_book st = Some which
            \<and> bookMsg_uuid env \<notin> msg_id ` set (messages st) \<longrightarrow>
          messages (handleSend_App env st)
            = messages st @
              [\<lparr>msg_id = userMsg_uuid env, role = User, content = trim (query st), ts = userMsg_now env\<rparr>,
               \<lparr>msg_id = bookMsg_uuid env, role = Book,
                 content = concat (fst (ask_stream (ask_result env))), ts = initBookMsg_now env\<rparr>,
               \<lparr>msg_id = errorMsg_uuid env, role = Book, content = fallback_text, ts = errorMsg_now env\<rparr>])
         \<and> (question_of overrideText (query fs) = Inr q \<and> q \<noteq> [] \<and> which_book fs = Some which'
            \<and> bookMsg_uuid env \<notin> msg_id ` set (messages fs) \<longrightarrow>
             (\<exists>fs'. handleSend env overrideText fs = Inr fs' \<and>
               messages fs'
                 = messages fs @
                   [\<lparr>msg_id = userMsg_uuid env, role = User, content = q, ts = userMsg_now env\<rparr>,
                    \<lparr>msg_id = bookMsg_uuid env, role = Book,
                      content = concat (fst (ask_stream (ask_result env))), ts = initBookMsg_now env\<rparr>,
                    \<lparr>msg_id = errorMsg_uuid env, role = Book, content = fallback_text,
                      ts = errorMsg_now env\<rparr>]))"
proof -
  obtain deltas e where a: "ask_stream (ask_result env) = (deltas, Some e)"
    using ask_stream_thrown [of "ask_result env"] assms(1)
    by (cases "ask_stream (ask_result env)") auto
  have opened: "appendDeltas (bookMsg_uuid env) deltas
          (m @ [\<lparr>msg_id = userMsg_uuid env, role = User, content = c, ts = t\<rparr>,
                \<lparr>msg_id = bookMsg_uuid env, role = Book, content = [], ts = t'\<rparr>])
        = m @ [\<lparr>msg_id = userMsg_uuid env, role = User, content = c, ts = t\<rparr>,
               \<lparr>msg_id = bookMsg_uuid env, role = Book, content = concat deltas, ts = t'\<rparr>]"
    if "bookMsg_uuid env \<notin> msg_id ` set m" for m c t t'
    using that assms(2) by (simp add: appendDeltas_open)
  have app: "messages (handleSend_App env st)
            = messages st @
              [\<lparr>msg_id = userMsg_uuid env, role = User, content = trim (query st), ts = userMsg_now env\<rparr>,
               \<lparr>msg_id = bookMsg_uuid env, role = Book,
                 content = concat (fst (ask_stream (ask_result env))), ts = initBookMsg_now env\<rparr>,
               \<lparr>msg_id = errorMsg_uuid env, role = Book, content = fallback_text, ts = errorMsg_now env\<rparr>]"
    if "trim (query st) \<noteq> []" "which_book st = Some which"
       "bookMsg_uuid env \<notin> msg_id ` set (messages st)"
    using that opened [OF that(3)]
    by (simp add: handleSend_App_def a setMessages_def emit_def Let_def)
  have full: "\<exists>fs'. handleSend env overrideText fs = Inr fs' \<and>
               messages fs'
                 = messages fs @
                   [\<lparr>msg_id = userMsg_uuid env, role = User, content = q, ts = userMsg_now env\<rparr>,
                    \<lparr>msg_id = bookMsg_uuid env, role = Book,
                      content = concat (fst (ask_stream (ask_result env))), ts = initBookMsg_now env\<rparr>,
                    \<lparr>msg_id = errorMsg_uuid env, role = Book, content = fallback_text,
                      ts = errorMsg_now env\<rparr>]"
    if "question_of overrideText (query fs) = Inr q" "q \<noteq> []" "which_book fs = Some which'"
       "bookMsg_uuid env \<notin> msg_id ` set (messages fs)"
    using that opened [OF that(4)]
    by (simp add: handleSend_def a setMessages_def emit_def Let_def
          update_streak_frame save_resume_frame)
  show ?thesis using app full by blast
qed

theorem failure_appends_fallback_witness:
  "transport_fails (ask_result sample_env)
   \<and> concat (fst (ask_stream (ask_result sample_env))) = js ''Hi''
   \<and> messages (handleSend_App sample_env sample_app)
       = [\<lparr>msg_id = js ''u2'', role = User, content = js ''hi'', ts = 10\<rparr>,
          \<lparr>msg_id = js ''b2'', role = Book, content = js ''Hi'', ts = 11\<rparr>,
          \<lparr>msg_id = js ''e2'', role = Book, content = fallback_text, ts = 12\<rparr>]
   \<and> (\<exists>fs'. handleSend sample_env NoArgument sample_full = Inr fs' \<and>
         messages fs'
           = [\<lparr>msg_id = js ''u2'', role = User, content = js ''hi'', ts = 10\<rparr>,
              \<lparr>msg_id = js ''b2'', role = Book, content = js ''Hi'', ts = 11\<rparr>,
              \<lparr>msg_id = js ''e2'', role = Book, content = fallback_text, ts = 12\<rparr>])"
proof -
  have f: "transport_fails (ask_result sample_env)"
    by code_simp
  have u: "userMsg_uuid sample_env \<noteq> bookMsg_uuid sample_env"
    by code_simp
  have a: "trim (query sample_app) \<noteq> [] \<and> which_book sample_app = Some sample_book
           \<and> bookMsg_uuid sample_env \<notin> msg_id ` set (messages sample_app)"
    by code_simp
  have b: "question_of NoArgument (query sample_full) = Inr (js ''hi'') \<and> js ''hi'' \<noteq> []
           \<and> which_book sample_full = Some sample_book
           \<and> bookMsg_uuid sample_env \<notin> msg_id ` set (messages sample_full)"
    by code_simp
  have e: "concat (fst (ask_stream (ask_result sample_env))) = js ''Hi''"
    "trim (query sample_app) = js ''hi''"
    by code_simp+
  have v: "userMsg_uuid sample_env = js ''u2''" "bookMsg_uuid sample_env = js ''b2''"
    "errorMsg_uuid sample_env = js ''e2''" "userMsg_now sample_env = 10"
    "initBookMsg_now sample_env = 11" "errorMsg_now sample_env = 12"
    "messages sample_app = []" "messages sample_full = []"
    by (simp_all add: sample_env_def sample_app_def sample_full_def)
  note t = failure_appends_fallback [OF f u, of sample_app sample_book NoArgument sample_full
        "js ''hi''" sample_book]
  from t a have "messages (handleSend_App sample_env sample_app)
      = messages sample_app @
        [\<lparr>msg_id = userMsg_uuid sample_env, role = User, content = trim (query sample_app),
           ts = userMsg_now sample_env\<rparr>,
         \<lparr>msg_id = bookMsg_uuid sample_env, role = Book,
           content = concat (fst (ask_stream (ask_result sample_env))),
           ts = initBookMsg_now sample_env\<rparr>,
         \<lparr>msg_id = errorMsg_uuid sample_env, role = Book, content = fallback_text,
           ts = errorMsg_now sample_env\<rparr>]"
    by blast
  then have app: "messages (handleSend_App sample_env sample_app)
       = [\<lparr>msg_id = js ''u2'', role = User, content = js ''hi'', ts = 10\<rparr>,
          \<lparr>msg_id = js ''b2'', role = Book, content = js ''Hi'', ts = 11\<rparr>,
          \<lparr>msg_id = js ''e2'', role = Book, content = fallback_text, ts = 12\<rparr>]"
    by (simp only: e v append_Nil)
  from t b obtain fs' where r: "handleSend sample_env NoArgument sample_full = Inr fs'"
    and m: "messages fs'
      = messages sample_full @
        [\<lparr>msg_id = userMsg_uuid sample_env, role = User, content = js ''hi'',
           ts = userMsg_now sample_env\<rparr>,
         \<lparr>msg_id = bookMsg_uuid sample_env, role = Book,
           content = concat (fst (ask_stream (ask_result sample_env))),
           ts = initBookMsg_now sample_env\<rparr>,
         \<lparr>msg_id = errorMsg_uuid sample_env, role = Book, content = fallback_text,
           ts = errorMsg_now sample_env\<rparr>]"
    by blast
  from m have "messages fs'
       = [\<lparr>msg_id = js ''u2'', role = User, content = js ''hi'', ts = 10\<rparr>,
          \<lparr>msg_id = js ''b2'', role = Book, content = js ''Hi'', ts = 11\<rparr>,
          \<lparr>msg_id = js ''e2'', role = Book, content = fallback_text, ts = 12\<rparr>]"
    by (simp only: e v append_Nil)
  with r f e(1) app show ?thesis by blast
qed

section \<open>The stream and the open message\<close>

lemma drain_no_sep: "indexOf_nlnl buffer = None \<Longrightarrow> drain buffer out = (buffer, out)"
  by (simp add: drain.simps [of buffer])

lemma read_loop_throws:
  "read_loop reads ReadThrows buffer out =
     (if reads = [] then (buffer, out) else drain (buffer @ concat reads) out)"
proof (induction reads arbitrary: buffer out)
  case Nil
  show ?case by simp
next
  case (Cons v reads)
  obtain rest out' where d: "drain (buffer @ v) out = (rest, out')"
    by (cases "drain (buffer @ v) out")
  have app: "drain ((buffer @ v) @ concat reads) out = drain (rest @ concat reads) out'"
    by (simp only: drain_append [of "buffer @ v" "concat reads" out] d prod.case)
  show ?case
  proof (cases "reads = []")
    case True
    then show ?thesis by (simp add: d)
  next
    case False
    then show ?thesis using app by (simp add: d Cons.IH)
  qed
qed

lemma spec_frames_Nil: "spec_frames [] = []"
  by (simp add: spec_frames_def)

lemma read_loop_deltas:
  "snd (read_loop reads e [] []) = List.map_filter frame_delta (spec_frames (concat reads))"
proof (cases e)
  case EndOfData
  then show ?thesis by (simp add: read_loop_drain drain_frames)
next
  case ReadThrows
  then show ?thesis
    by (simp add: read_loop_throws drain_frames spec_frames_Nil)
qed

lemma ask_stream_ok:
  "ask_stream (Resolves True (Some (Body reads e))) =
     (List.map_filter frame_delta (spec_frames (concat reads)),
      if e = ReadThrows then Some NetworkError else None)"
  by (simp add: ask_stream_def read_loop_deltas)

lemma data_field_values_eq: "frame_dataLines frame = data_field_values frame"
proof -
  have len: "length (js ''data:'') = 5" by (simp add: js_def)
  have "replace_field (js ''data:'') l = data_field_value l" if "startsWith l (js ''data:'')" for l
    using that by (simp add: replace_field_def data_field_value_def len)
  then show ?thesis
    by (simp add: frame_dataLines_eq data_field_values_def)
qed

text \<open>The messages after a send whose request was made, for any outcome of the stream.\<close>

lemma handleSend_App_messages:
  assumes "trim (query st) \<noteq> []" "which_book st = Some which"
    "bookMsg_uuid env \<notin> msg_id ` set (messages st)" "userMsg_uuid env \<noteq> bookMsg_uuid env"
  shows "messages (handleSend_App env st) =
     messages st @
       [\<lparr>msg_id = userMsg_uuid env, role = User, content = trim (query st), ts = userMsg_now env\<rparr>,
        \<lparr>msg_id = bookMsg_uuid env, role = Book,
          content = concat (fst (ask_stream (ask_result env))), ts = initBookMsg_now env\<rparr>]
       @ (case snd (ask_stream (ask_result env)) of
            None \<Rightarrow> []
          | Some e \<Rightarrow> [\<lparr>msg_id = errorMsg_uuid env, role = Book, content = fallback_text,
                          ts = errorMsg_now env\<rparr>])"
proof -
  obtain deltas thrown where a: "ask_stream (ask_result env) = (deltas, thrown)"
    by (cases "ask_stream (ask_result env)")
  have opened: "appendDeltas (bookMsg_uuid env) deltas
          (messages st @ [\<lparr>msg_id = userMsg_uuid env, role = User, content = c, ts = t\<rparr>,
                \<lparr>msg_id = bookMsg_uuid env, role = Book, content = [], ts = t'\<rparr>])
        = messages st @ [\<lparr>msg_id = userMsg_uuid env, role = User, content = c, ts = t\<rparr>,
               \<lparr>msg_id = bookMsg_uuid env, role = Book, content = concat deltas, ts = t'\<rparr>]"
    for c t t'
    using assms(3,4) by (simp add: appendDeltas_open)
  show ?thesis
    using assms(1,2) opened
    by (simp add: handleSend_App_def a setMessages_def emit_def Let_def split: option.splits)
qed

lemma handleSend_messages:
  assumes "question_of overrideText (query st) = Inr q" "q \<noteq> []" "which_book st = Some which"
    "bookMsg_uuid env \<notin> msg_id ` set (messages st)" "userMsg_uuid env \<noteq> bookMsg_uuid env"
  shows "\<exists>st'. handleSend env overrideText st = Inr st' \<and> messages st' =
     messages st @
       [\<lparr>msg_id = userMsg_uuid env, role = User, content = q, ts = userMsg_now env\<rparr>,
        \<lparr>msg_id = bookMsg_uuid env, role = Book,
          content = concat (fst (ask_stream (ask_result env))), ts = initBookMsg_now env\<rparr>]
       @ (case snd (ask_stream (ask_result env)) of
            None \<Rightarrow> []
          | Some e \<Rightarrow> [\<lparr>msg_id = errorMsg_uuid env, role = Book, content = fallback_text,
                          ts = errorMsg_now env\<rparr>])"
proof -
  obtain deltas thrown where a: "ask_stream (ask_result env) = (deltas, thrown)"
    by (cases "ask_stream (ask_result env)")
  have opened: "appendDeltas (bookMsg_uuid env) deltas
          (messages st @ [\<lparr>msg_id = userMsg_uuid env, role = User, content = c, ts = t\<rparr>,
                \<lparr>msg_id = bookMsg_uuid env, role = Book, content = [], ts = t'\<rparr>])
        = messages st @ [\<lparr>msg_id = userMsg_uuid env, role = User, content = c, ts = t\<rparr>,
               \<lparr>msg_id = bookMsg_uuid env, role = Book, content = concat deltas, ts = t'\<rparr>]"
    for c t t'
    using assms(4,5) by (simp add: appendDeltas_open)
  show ?thesis
    using assms(1,2,3) opened
    by (simp add: handleSend_def a setMessages_def emit_def Let_def
          update_streak_frame save_resume_frame split: option.splits)
qed

lemma map_filter_snoc:
  "List.map_filter g (xs @ [x]) =
     List.map_filter g xs @ (case g x of None \<Rightarrow> [] | Some y \<Rightarrow> [y])"
  by (simp add: List.map_filter_def split: option.splits)

lemma appendDeltas_snoc: "appendDeltas i (ds @ [d]) m = appendDelta i d (appendDeltas i ds m)"
  by (simp add: appendDeltas_def)

text \<open>
  Claim C3, as stated, fails when the data lines are the trimmed remainders of the
  specification. For the stream \<open>data: x \<close> followed by a blank line, whose only frame has no
  event line, the delta forwarded and appended to the open message is \<open>x \<close> with its space,
  in both versions; the trimmed data line is \<open>x\<close>.
\<close>

theorem trimmed_data_lines_differ:
  "map spec_event_type (spec_frames (concat [js ''data: x '' @ [LF, LF]])) = [None]
   \<and> concat (stream_deltas [js ''data: x '' @ [LF, LF]]) = js ''x ''
   \<and> map content (messages (handleSend_App sample_space_env sample_app))
       = [js ''hi'', js ''x '']
   \<and> map_sum id (map content \<circ> messages) (handleSend sample_space_env NoArgument sample_full)
       = Inr [js ''hi'', js ''x '']
   \<and> concat (map (join_nl \<circ> spec_data_lines) (spec_frames (concat [js ''data: x '' @ [LF, LF]])))
       = js ''x''
   \<and> js ''x '' \<noteq> js ''x''"
  by code_simp

text \<open>
  Claim C3, amended. When every complete frame of the stream's text has no event line or
  the event type \<open>chunk\<close>, the concatenation of the forwarded deltas is the concatenation,
  frame by frame and with nothing between frames, of the values of the frame's data lines
  joined by one line feed, the value of a data line being the line without \<open>data:\<close> and
  without at most one whitespace code unit directly after it. After a send whose stream is
  read to its end this text is the content of the open message, in both versions. The
  reads may cut the text anywhere.
\<close>

theorem no_data_loss:
  assumes "\<forall>f\<in>set (spec_frames (concat reads)).
             spec_event_type f = None \<or> spec_event_type f = Some (js ''chunk'')"
  shows "concat (stream_deltas reads) =
           concat (map (\<lambda>f. join_nl (data_field_values f)) (spec_frames (concat reads)))
    \<and> (ask_result env = Resolves True (Some (Body reads EndOfData))
         \<and> userMsg_uuid env \<noteq> bookMsg_uuid env
         \<and> trim (query st) \<noteq> [] \<and> which_book st = Some which
         \<and> bookMsg_uuid env \<notin> msg_id ` set (messages st) \<longrightarrow>
       messages (handleSend_App env st) =
         messages st @
           [\<lparr>msg_id = userMsg_uuid env, role = User, content = trim (query st),
              ts = userMsg_now env\<rparr>,
            \<lparr>msg_id = bookMsg_uuid env, role = Book,
              content = concat (map (\<lambda>f. join_nl (data_field_values f))
                                  (spec_frames (concat reads))),
              ts = initBookMsg_now env\<rparr>])
    \<and> (ask_result env = Resolves True (Some (Body reads EndOfData))
         \<and> userMsg_uuid env \<noteq> bookMsg_uuid env
         \<and> question_of overrideText (query fs) = Inr q \<and> q \<noteq> [] \<and> which_book fs = Some which'
         \<and> bookMsg_uuid env \<notin> msg_id ` set (messages fs) \<longrightarrow>
       (\<exists>fs'. handleSend env overrideText fs = Inr fs' \<and>
          messages fs' =
            messages fs @
              [\<lparr>msg_id = userMsg_uuid env, role = User, content = q, ts = userMsg_now env\<rparr>,
               \<lparr>msg_id = bookMsg_uuid env, role = Book,
                 content = concat (map (\<lambda>f. join_nl (data_field_values f))
                                     (spec_frames (concat reads))),
                 ts = initBookMsg_now env\<rparr>]))"
proof -
  let ?text = "concat (map (\<lambda>f. join_nl (data_field_values f)) (spec_frames (concat reads)))"
  have fr: "concat (List.map_filter frame_delta (spec_frames (concat reads))) = ?text"
    using concat_map_filter_deltas [OF assms] by (simp add: data_field_values_eq)
  have d: "concat (stream_deltas reads) = ?text"
    using fr by (simp add: stream_deltas_def read_loop_deltas)
  have app: "messages (handleSend_App env st) =
         messages st @
           [\<lparr>msg_id = userMsg_uuid env, role = User, content = trim (query st),
              ts = userMsg_now env\<rparr>,
            \<lparr>msg_id = bookMsg_uuid env, role = Book, content = ?text,
              ts = initBookMsg_now env\<rparr>]"
    if "ask_result env = Resolves True (Some (Body reads EndOfData))"
      "userMsg_uuid env \<noteq> bookMsg_uuid env"
      "trim (query st) \<noteq> []" "which_book st = Some which"
      "bookMsg_uuid env \<notin> msg_id ` set (messages st)"
    using handleSend_App_messages [OF that(3,4,5,2)] fr
    by (simp add: that(1) ask_stream_ok)
  have full: "\<exists>fs'. handleSend env overrideText fs = Inr fs' \<and>
          messages fs' =
            messages fs @
              [\<lparr>msg_id = userMsg_uuid env, role = User, content = q, ts = userMsg_now env\<rparr>,
               \<lparr>msg_id = bookMsg_uuid env, role = Book, content = ?text,
                 ts = initBookMsg_now env\<rparr>]"
    if "ask_result env = Resolves True (Some (Body reads EndOfData))"
      "userMsg_uuid env \<noteq> bookMsg_uuid env"
      "question_of overrideText (query fs) = Inr q" "q \<noteq> []" "which_book fs = Some which'"
      "bookMsg_uuid env \<notin> msg_id ` set (messages fs)"
    using handleSend_messages [OF that(3,4,5,6,2)] fr
    by (simp add: that(1) ask_stream_ok)
  show ?thesis using d app full by blast
qed

theorem no_data_loss_witness:
  "map spec_event_type (spec_frames (concat sample_reads)) = [None, Some (js ''chunk'')]
   \<and> concat (stream_deltas sample_reads) = js ''HelloWor'' @ [LF] @ js ''ld''
   \<and> messages (handleSend_App sample_stream_env sample_app)
       = [\<lparr>msg_id = js ''u2'', role = User, content = js ''hi'', ts = 10\<rparr>,
          \<lparr>msg_id = js ''b2'', role = Book, content = js ''HelloWor'' @ [LF] @ js ''ld'', ts = 11\<rparr>]
   \<and> (\<exists>fs'. handleSend sample_stream_env NoArgument sample_full = Inr fs' \<and>
         messages fs'
           = [\<lparr>msg_id = js ''u2'', role = User, content = js ''hi'', ts = 10\<rparr>,
              \<lparr>msg_id = js ''b2'', role = Book, content = js ''HelloWor'' @ [LF] @ js ''ld'',
                ts = 11\<rparr>])"
proof -
  let ?text = "concat (map (\<lambda>f. join_nl (data_field_values f)) (spec_frames (concat sample_reads)))"
  have ev: "map spec_event_type (spec_frames (concat sample_reads)) = [None, Some (js ''chunk'')]"
    by code_simp
  have h: "\<forall>f\<in>set (spec_frames (concat sample_reads)).
             spec_event_type f = None \<or> spec_event_type f = Some (js ''chunk'')"
    by code_simp
  have v: "?text = js ''HelloWor'' @ [LF] @ js ''ld''"
    by code_simp
  have a: "ask_result sample_stream_env = Resolves True (Some (Body sample_reads EndOfData))
           \<and> userMsg_uuid sample_stream_env \<noteq> bookMsg_uuid sample_stream_env
           \<and> trim (query sample_app) \<noteq> [] \<and> which_book sample_app = Some sample_book
           \<and> bookMsg_uuid sample_stream_env \<notin> msg_id ` set (messages sample_app)"
    by code_simp
  have b: "ask_result sample_stream_env = Resolves True (Some (Body sample_reads EndOfData))
           \<and> userMsg_uuid sample_stream_env \<noteq> bookMsg_uuid sample_stream_env
           \<and> question_of NoArgument (query sample_full) = Inr (js ''hi'') \<and> js ''hi'' \<noteq> []
           \<and> which_book sample_full = Some sample_book
           \<and> bookMsg_uuid sample_stream_env \<notin> msg_id ` set (messages sample_full)"
    by code_simp
  have e: "userMsg_uuid sample_stream_env = js ''u2''" "bookMsg_uuid sample_stream_env = js ''b2''"
    "userMsg_now sample_stream_env = 10" "initBookMsg_now sample_stream_env = 11"
    "messages sample_app = []" "messages sample_full = []"
    by (simp_all add: sample_stream_env_def sample_env_def sample_app_def sample_full_def)
  have q: "trim (query sample_app) = js ''hi''"
    by code_simp
  note t = no_data_loss [OF h, of sample_stream_env sample_app sample_book NoArgument
      sample_full "js ''hi''" sample_book]
  from t have d: "concat (stream_deltas sample_reads) = ?text"
    by blast
  from t a have "messages (handleSend_App sample_stream_env sample_app) =
         messages sample_app @
           [\<lparr>msg_id = userMsg_uuid sample_stream_env, role = User,
              content = trim (query sample_app), ts = userMsg_now sample_stream_env\<rparr>,
            \<lparr>msg_id = bookMsg_uuid sample_stream_env, role = Book, content = ?text,
              ts = initBookMsg_now sample_stream_env\<rparr>]"
    by blast
  then have app: "messages (handleSend_App sample_stream_env sample_app)
       = [\<lparr>msg_id = js ''u2'', role = User, content = js ''hi'', ts = 10\<rparr>,
          \<lparr>msg_id = js ''b2'', role = Book, content = js ''HelloWor'' @ [LF] @ js ''ld'', ts = 11\<rparr>]"
    by (simp only: e q v append_Nil)
  from t b obtain fs' where r: "handleSend sample_stream_env NoArgument sample_full = Inr fs'"
    and m: "messages fs' =
            messages sample_full @
              [\<lparr>msg_id = userMsg_uuid sample_stream_env, role = User, content = js ''hi'',
                 ts = userMsg_now sample_stream_env\<rparr>,
               \<lparr>msg_id = bookMsg_uuid sample_stream_env, role = Book, content = ?text,
                 ts = initBookMsg_now sample_stream_env\<rparr>]"
    by blast
  from m have "messages fs'
       = [\<lparr>msg_id = js ''u2'', role = User, content = js ''hi'', ts = 10\<rparr>,
          \<lparr>msg_id = js ''b2'', role = Book, content = js ''HelloWor'' @ [LF] @ js ''ld'', ts = 11\<rparr>]"
    by (simp only: e v append_Nil)
  with r ev d v app show ?thesis by (simp only:) blast
qed

text \<open>
  Claim C5. A frame is forwarded, with the join of its data lines as the delta, exactly
  when it has at least one line beginning with \<open>data:\<close> and either no line beginning with
  \<open>event:\<close> or the event type \<open>chunk\<close>, the event type being the trimmed rest of the last
  \<open>event:\<close> line. A frame \<open>event: ping\<close>, \<open>data: x\<close> forwards nothing, and neither does a
  frame without a data line. What a frame does to the messages is the delta updater with
  its delta when it is forwarded and nothing otherwise; and after a send, in both versions,
  the content of the open message is the forwarded deltas of the frames of the stream, in
  order, whether the stream ends or a read throws.
\<close>

theorem forward_iff:
  "(frame_delta chunk = Some delta \<longleftrightarrow>
      (\<exists>l\<in>set (split_nl chunk). startsWith l (js ''data:''))
      \<and> ((\<forall>l\<in>set (split_nl chunk). \<not> startsWith l (js ''event:''))
         \<or> frame_eventType chunk = Some (js ''chunk''))
      \<and> delta = join_nl (frame_dataLines chunk))
   \<and> frame_eventType chunk = spec_event_type chunk
   \<and> frame_delta (js ''event: ping'' @ [LF] @ js ''data: x'') = None
   \<and> ((\<forall>l\<in>set (split_nl chunk). \<not> startsWith l (js ''data:'')) \<longrightarrow> frame_delta chunk = None)
   \<and> appendDeltas bookMsgId (List.map_filter frame_delta (frames @ [chunk])) m =
       (case frame_delta chunk of
          Some d \<Rightarrow> appendDelta bookMsgId d (appendDeltas bookMsgId (List.map_filter frame_delta frames) m)
        | None \<Rightarrow> appendDeltas bookMsgId (List.map_filter frame_delta frames) m)
   \<and> (ask_result env = Resolves True (Some (Body reads e))
        \<and> userMsg_uuid env \<noteq> bookMsg_uuid env
        \<and> trim (query st) \<noteq> [] \<and> which_book st = Some which
        \<and> bookMsg_uuid env \<notin> msg_id ` set (messages st) \<longrightarrow>
      messages (handleSend_App env st) =
        messages st @
          [\<lparr>msg_id = userMsg_uuid env, role = User, content = trim (query st),
             ts = userMsg_now env\<rparr>,
           \<lparr>msg_id = bookMsg_uuid env, role = Book,
             content = concat (List.map_filter frame_delta (spec_frames (concat reads))),
             ts = initBookMsg_now env\<rparr>]
          @ (if e = ReadThrows
             then [\<lparr>msg_id = errorMsg_uuid env, role = Book, content = fallback_text,
                     ts = errorMsg_now env\<rparr>]
             else []))
   \<and> (ask_result env = Resolves True (Some (Body reads e))
        \<and> userMsg_uuid env \<noteq> bookMsg_uuid env
        \<and> question_of overrideText (query fs) = Inr q \<and> q \<noteq> [] \<and> which_book fs = Some which'
        \<and> bookMsg_uuid env \<notin> msg_id ` set (messages fs) \<longrightarrow>
      (\<exists>fs'. handleSend env overrideText fs = Inr fs' \<and>
         messages fs' =
           messages fs @
             [\<lparr>msg_id = userMsg_uuid env, role = User, content = q, ts = userMsg_now env\<rparr>,
              \<lparr>msg_id = bookMsg_uuid env, role = Book,
                content = concat (List.map_filter frame_delta (spec_frames (concat reads))),
                ts = initBookMsg_now env\<rparr>]
             @ (if e = ReadThrows
                then [\<lparr>msg_id = errorMsg_uuid env, role = Book, content = fallback_text,
                        ts = errorMsg_now env\<rparr>]
                else [])))"
proof -
  have d: "frame_dataLines chunk \<noteq> [] \<longleftrightarrow>
             (\<exists>l\<in>set (split_nl chunk). startsWith l (js ''data:''))"
    by (simp add: frame_dataLines_eq filter_empty_conv)
  have e: "frame_eventType chunk = None \<longleftrightarrow>
             (\<forall>l\<in>set (split_nl chunk). \<not> startsWith l (js ''event:''))"
    by (simp add: frame_eventType_eq spec_event_type_def Let_def filter_empty_conv)
  have p: "frame_delta (js ''event: ping'' @ [LF] @ js ''data: x'') = None"
    by code_simp
  have guard: "(frame_delta chunk = Some delta \<longleftrightarrow>
      (\<exists>l\<in>set (split_nl chunk). startsWith l (js ''data:''))
      \<and> ((\<forall>l\<in>set (split_nl chunk). \<not> startsWith l (js ''event:''))
         \<or> frame_eventType chunk = Some (js ''chunk''))
      \<and> delta = join_nl (frame_dataLines chunk))
   \<and> frame_eventType chunk = spec_event_type chunk
   \<and> frame_delta (js ''event: ping'' @ [LF] @ js ''data: x'') = None
   \<and> ((\<forall>l\<in>set (split_nl chunk). \<not> startsWith l (js ''data:'')) \<longrightarrow> frame_delta chunk = None)"
    unfolding frame_delta_eq [of chunk] using d e p frame_eventType_eq [of chunk] by auto
  have step: "appendDeltas bookMsgId (List.map_filter frame_delta (frames @ [chunk])) m =
       (case frame_delta chunk of
          Some d \<Rightarrow> appendDelta bookMsgId d (appendDeltas bookMsgId (List.map_filter frame_delta frames) m)
        | None \<Rightarrow> appendDeltas bookMsgId (List.map_filter frame_delta frames) m)"
    by (cases "frame_delta chunk") (simp_all add: map_filter_snoc appendDeltas_snoc)
  have app: "messages (handleSend_App env st) =
        messages st @
          [\<lparr>msg_id = userMsg_uuid env, role = User, content = trim (query st),
             ts = userMsg_now env\<rparr>,
           \<lparr>msg_id = bookMsg_uuid env, role = Book,
             content = concat (List.map_filter frame_delta (spec_frames (concat reads))),
             ts = initBookMsg_now env\<rparr>]
          @ (if e = ReadThrows
             then [\<lparr>msg_id = errorMsg_uuid env, role = Book, content = fallback_text,
                     ts = errorMsg_now env\<rparr>]
             else [])"
    if "ask_result env = Resolves True (Some (Body reads e))"
      "userMsg_uuid env \<noteq> bookMsg_uuid env"
      "trim (query st) \<noteq> []" "which_book st = Some which"
      "bookMsg_uuid env \<notin> msg_id ` set (messages st)"
    using handleSend_App_messages [OF that(3,4,5,2)]
    by (simp add: that(1) ask_stream_ok)
  have full: "\<exists>fs'. handleSend env overrideText fs = Inr fs' \<and>
         messages fs' =
           messages fs @
             [\<lparr>msg_id = userMsg_uuid env, role = User, content = q, ts = userMsg_now env\<rparr>,
              \<lparr>msg_id = bookMsg_uuid env, role = Book,
                content = concat (List.map_filter frame_delta (spec_frames (concat reads))),
                ts = initBookMsg_now env\<rparr>]
             @ (if e = ReadThrows
                then [\<lparr>msg_id = errorMsg_uuid env, role = Book, content = fallback_text,
                        ts = errorMsg_now env\<rparr>]
                else [])"
    if "ask_result env = Resolves True (Some (Body reads e))"
      "userMsg_uuid env \<noteq> bookMsg_uuid env"
      "question_of overrideText (query fs) = Inr q" "q \<noteq> []" "which_book fs = Some which'"
      "bookMsg_uuid env \<notin> msg_id ` set (messages fs)"
    using handleSend_messages [OF that(3,4,5,6,2)]
    by (cases e) (simp_all add: that(1) ask_stream_ok)
  show ?thesis using guard step app full by blast
qed

theorem forward_iff_witness:
  "frame_delta sample_frame = Some (js ''x'' @ [LF] @ js ''y'')
   \<and> (\<exists>l\<in>set (split_nl sample_frame). startsWith l (js ''data:''))
   \<and> frame_eventType sample_frame = Some (js ''chunk'')
   \<and> List.map_filter frame_delta (spec_frames (concat sample_guard_reads)) = [js ''a'', js ''b'']
   \<and> messages (handleSend_App sample_guard_env sample_app)
       = [\<lparr>msg_id = js ''u2'', role = User, content = js ''hi'', ts = 10\<rparr>,
          \<lparr>msg_id = js ''b2'', role = Book, content = js ''ab'', ts = 11\<rparr>]
   \<and> (\<exists>fs'. handleSend sample_guard_env NoArgument sample_full = Inr fs' \<and>
         messages fs'
           = [\<lparr>msg_id = js ''u2'', role = User, content = js ''hi'', ts = 10\<rparr>,
              \<lparr>msg_id = js ''b2'', role = Book, content = js ''ab'', ts = 11\<rparr>])"
proof -
  let ?content = "concat (List.map_filter frame_delta (spec_frames (concat sample_guard_reads)))"
  have f1: "\<exists>l\<in>set (split_nl sample_frame). startsWith l (js ''data:'')" by code_simp
  have f2: "frame_eventType sample_frame = Some (js ''chunk'')" by code_simp
  have f3: "join_nl (frame_dataLines sample_frame) = js ''x'' @ [LF] @ js ''y''" by code_simp
  have g: "List.map_filter frame_delta (spec_frames (concat sample_guard_reads)) = [js ''a'', js ''b'']"
    by code_simp
  have v: "?content = js ''ab''"
    by code_simp
  have a: "ask_result sample_guard_env = Resolves True (Some (Body sample_guard_reads EndOfData))
           \<and> userMsg_uuid sample_guard_env \<noteq> bookMsg_uuid sample_guard_env
           \<and> trim (query sample_app) \<noteq> [] \<and> which_book sample_app = Some sample_book
           \<and> bookMsg_uuid sample_guard_env \<notin> msg_id ` set (messages sample_app)"
    by code_simp
  have b: "ask_result sample_guard_env = Resolves True (Some (Body sample_guard_reads EndOfData))
           \<and> userMsg_uuid sample_guard_env \<noteq> bookMsg_uuid sample_guard_env
           \<and> question_of NoArgument (query sample_full) = Inr (js ''hi'') \<and> js ''hi'' \<noteq> []
           \<and> which_book sample_full = Some sample_book
           \<and> bookMsg_uuid sample_guard_env \<notin> msg_id ` set (messages sample_full)"
    by code_simp
  have e: "userMsg_uuid sample_guard_env = js ''u2''" "bookMsg_uuid sample_guard_env = js ''b2''"
    "userMsg_now sample_guard_env = 10" "initBookMsg_now sample_guard_env = 11"
    "messages sample_app = []" "messages sample_full = []"
    by (simp_all add: sample_guard_env_def sample_env_def sample_app_def sample_full_def)
  have q: "trim (query sample_app) = js ''hi''"
    by code_simp
  have ne: "(EndOfData = ReadThrows) = False" by simp
  note t = forward_iff [of sample_frame "js ''x'' @ [LF] @ js ''y''" "[]" "[]" "[]"
      sample_guard_env sample_guard_reads EndOfData sample_app sample_book NoArgument
      sample_full "js ''hi''" sample_book]
  note c2 = conjunct2
  note guard = t [THEN conjunct1]
  note app_t = t [THEN c2, THEN c2, THEN c2, THEN c2, THEN c2, THEN conjunct1]
  note full_t = t [THEN c2, THEN c2, THEN c2, THEN c2, THEN c2, THEN c2]
  from guard f1 f2 f3 [symmetric]
  have d: "frame_delta sample_frame = Some (js ''x'' @ [LF] @ js ''y'')"
    by blast
  from mp [OF app_t a] have "messages (handleSend_App sample_guard_env sample_app) =
        messages sample_app @
          [\<lparr>msg_id = userMsg_uuid sample_guard_env, role = User, content = trim (query sample_app),
             ts = userMsg_now sample_guard_env\<rparr>,
           \<lparr>msg_id = bookMsg_uuid sample_guard_env, role = Book, content = ?content,
             ts = initBookMsg_now sample_guard_env\<rparr>]
          @ (if EndOfData = ReadThrows
             then [\<lparr>msg_id = errorMsg_uuid sample_guard_env, role = Book, content = fallback_text,
                     ts = errorMsg_now sample_guard_env\<rparr>]
             else [])" .
  then have app: "messages (handleSend_App sample_guard_env sample_app)
       = [\<lparr>msg_id = js ''u2'', role = User, content = js ''hi'', ts = 10\<rparr>,
          \<lparr>msg_id = js ''b2'', role = Book, content = js ''ab'', ts = 11\<rparr>]"
    by (simp only: e q v ne if_False append_Nil append_Nil2)
  from mp [OF full_t b] obtain fs' where r: "handleSend sample_guard_env NoArgument sample_full = Inr fs'"
    and m: "messages fs' =
           messages sample_full @
             [\<lparr>msg_id = userMsg_uuid sample_guard_env, role = User, content = js ''hi'',
                ts = userMsg_now sample_guard_env\<rparr>,
              \<lparr>msg_id = bookMsg_uuid sample_guard_env, role = Book, content = ?content,
                ts = initBookMsg_now sample_guard_env\<rparr>]
             @ (if EndOfData = ReadThrows
                then [\<lparr>msg_id = errorMsg_uuid sample_guard_env, role = Book,
                        content = fallback_text, ts = errorMsg_now sample_guard_env\<rparr>]
                else [])"
    by blast
  from m have "messages fs'
       = [\<lparr>msg_id = js ''u2'', role = User, content = js ''hi'', ts = 10\<rparr>,
          \<lparr>msg_id = js ''b2'', role = Book, content = js ''ab'', ts = 11\<rparr>]"
    by (simp only: e v ne if_False append_Nil append_Nil2)
  with r f1 f2 d g app show ?thesis by blast
qed

section \<open>The streak count in \<open>localStorage\<close>\<close>

declare decimal.simps [simp del]


lemma digit_facts:
  assumes "k < 10"
  shows "digit_value (0x30 + of_nat k) = Some k"
    and "\<not> is_space (0x30 + of_nat k)"
    and "(0x30 + of_nat k :: jschar) \<noteq> 0x2D"
    and "(0x30 + of_nat k :: jschar) \<noteq> 0x2B"
    and "(0x30 + of_nat k :: jschar) \<noteq> 0x78"
    and "(0x30 + of_nat k :: jschar) \<noteq> 0x58"
proof -
  from assms have "k = 0 \<or> k = 1 \<or> k = 2 \<or> k = 3 \<or> k = 4 \<or> k = 5 \<or> k = 6 \<or> k = 7 \<or> k = 8 \<or> k = 9"
    by arith
  then show "digit_value (0x30 + of_nat k) = Some k"
    and "\<not> is_space (0x30 + of_nat k)"
    and "(0x30 + of_nat k :: jschar) \<noteq> 0x2D"
    and "(0x30 + of_nat k :: jschar) \<noteq> 0x2B"
    and "(0x30 + of_nat k :: jschar) \<noteq> 0x78"
    and "(0x30 + of_nat k :: jschar) \<noteq> 0x58"
    by (auto simp: digit_value_def is_space_def)
qed

lemma decimal_digits: "c \<in> set (decimal n) \<Longrightarrow> \<exists>k<10. c = 0x30 + of_nat k"
proof (induction n rule: decimal.induct)
  case (1 n)
  show ?case
  proof (cases "n < 10")
    case True
    with "1.prems" show ?thesis by (auto simp: decimal.simps [of n])
  next
    case False
    with "1.prems" have "c \<in> set (decimal (n div 10)) \<or> c = 0x30 + of_nat (n mod 10)"
      by (auto simp: decimal.simps [of n])
    then show ?thesis
    proof
      assume "c \<in> set (decimal (n div 10))"
      with "1.IH" [OF False] show ?thesis .
    next
      assume "c = 0x30 + of_nat (n mod 10)"
      then show ?thesis by (intro exI [of _ "n mod 10"]) simp
    qed
  qed
qed

lemma decimal_nonempty: "decimal n \<noteq> []"
  by (simp add: decimal.simps [of n])

lemma digits_value_snoc:
  "digits_value R acc (cs @ [c]) =
     digits_value R acc cs * R + (case digit_value c of Some d \<Rightarrow> d | None \<Rightarrow> 0)"
  by (induction cs arbitrary: acc) simp_all

lemma digits_value_decimal: "digits_value 10 0 (decimal n) = n"
proof (induction n rule: decimal.induct)
  case (1 n)
  show ?case
  proof (cases "n < 10")
    case True
    then show ?thesis by (simp add: decimal.simps [of n] digit_facts(1))
  next
    case False
    have "n mod 10 < 10" by simp
    then have d: "digit_value (0x30 + of_nat (n mod 10)) = Some (n mod 10)"
      by (rule digit_facts(1))
    show ?thesis
      using "1.IH" [OF False] False
      by (simp add: decimal.simps [of n] digits_value_snoc d)
  qed
qed

lemma decimal_all_digits: "\<forall>c\<in>set (decimal n). radix_digit 10 c"
proof
  fix c assume "c \<in> set (decimal n)"
  then obtain k where k: "k < 10" "c = 0x30 + of_nat k"
    using decimal_digits by blast
  then show "radix_digit 10 c"
    by (simp add: radix_digit_def digit_facts(1))
qed

lemma decimal_hd_cases:
  obtains c cs where "decimal n = c # cs" "\<not> is_space c" "c \<noteq> 0x2D" "c \<noteq> 0x2B"
    "\<forall>d\<in>set cs. d \<noteq> 0x78 \<and> d \<noteq> 0x58"
proof -
  obtain c cs where eq: "decimal n = c # cs"
    using decimal_nonempty [of n] by (cases "decimal n") auto
  have "\<exists>k<10. x = 0x30 + of_nat k" if "x \<in> set (c # cs)" for x
    using that decimal_digits [of x n] by (simp add: eq)
  then have "\<not> is_space c" "c \<noteq> 0x2D" "c \<noteq> 0x2B" "\<forall>d\<in>set cs. d \<noteq> 0x78 \<and> d \<noteq> 0x58"
    using digit_facts by (fastforce)+
  with eq show ?thesis using that by blast
qed

lemma parseInt_decimal: "parseInt (decimal n) = Some (int n)"
proof -
  obtain c cs where eq: "decimal n = c # cs" and c: "\<not> is_space c" "c \<noteq> 0x2D" "c \<noteq> 0x2B"
    and cs: "\<forall>d\<in>set cs. d \<noteq> 0x78 \<and> d \<noteq> 0x58"
    by (rule decimal_hd_cases)
  have dw: "dropWhile is_space (decimal n) = decimal n"
    using eq c by simp
  have nosign: "\<not> startsWith (decimal n) (js ''-'')" "\<not> startsWith (decimal n) (js ''+'')"
    using eq c by (simp_all add: startsWith_def js_def)
  have nohex: "\<not> startsWith (decimal n) (js ''0x'')" "\<not> startsWith (decimal n) (js ''0X'')"
    using eq cs by (cases cs; simp add: startsWith_def js_def)+
  have tw: "takeWhile (radix_digit 10) (decimal n) = decimal n"
    using decimal_all_digits [of n] by (simp add: takeWhile_eq_all_conv)
  show ?thesis
    by (simp add: parseInt_def Let_def dw nosign nohex tw decimal_nonempty digits_value_decimal)
qed

lemma parseInt_minus_decimal: "parseInt (js ''-'' @ decimal n) = Some (- int n)"
proof -
  obtain c cs where eq: "decimal n = c # cs" and c: "\<not> is_space c" "c \<noteq> 0x2D" "c \<noteq> 0x2B"
    and cs: "\<forall>d\<in>set cs. d \<noteq> 0x78 \<and> d \<noteq> 0x58"
    by (rule decimal_hd_cases)
  have sp: "\<not> is_space (0x2D :: jschar)" by (simp add: is_space_def)
  have S: "dropWhile is_space (js ''-'' @ decimal n) = 0x2D # decimal n"
    using sp by (simp add: js_def)
  have sign: "startsWith (0x2D # decimal n) (js ''-'')"
    by (simp add: startsWith_def js_def)
  have nohex: "\<not> startsWith (decimal n) (js ''0x'')" "\<not> startsWith (decimal n) (js ''0X'')"
    using eq cs by (cases cs; simp add: startsWith_def js_def)+
  have tw: "takeWhile (radix_digit 10) (decimal n) = decimal n"
    using decimal_all_digits [of n] by (simp add: takeWhile_eq_all_conv)
  show ?thesis
    unfolding parseInt_def Let_def S
    by (simp add: sign nohex tw decimal_nonempty digits_value_decimal)
qed

lemma parseInt_String_of: "parseInt (String_of n) = Some n"
  by (simp add: String_of_def parseInt_decimal parseInt_minus_decimal)

lemma String_of_nonempty: "String_of n \<noteq> []"
  by (simp add: String_of_def decimal_nonempty js_def)

lemma stored_count_String_of: "stored_count (Some (String_of n)) = n"
  by (simp add: stored_count_def String_of_nonempty parseInt_String_of)

lemma map_of_put_item:
  "map_of (put_item k v kvs) k' = (if k' = k then Some v else map_of kvs k')"
  by (induction kvs) auto

lemma storage_keys_distinct:
  "js ''lastActiveDate'' \<noteq> js ''streakCount''"
  "js ''lastActiveDate'' \<noteq> js ''lastSession''"
  "js ''streakCount'' \<noteq> js ''lastSession''"
  by (simp_all add: js_def)

text \<open>The first \<open>try\<close> block when \<open>localStorage\<close> does not throw.\<close>

lemma update_streak_ok:
  fixes env :: env and st :: full_state
  defines "lastActive \<equiv> map_of (items (localStorage st)) (js ''lastActiveDate'')"
      and "count0 \<equiv> stored_count (map_of (items (localStorage st)) (js ''streakCount''))"
  defines "count \<equiv> (if lastActive = None \<or> lastActive = Some [] then 1
                     else if lastActive = Some (todayStr env) then count0
                     else if lastActive = Some (yesterdayStr env) then count0 + 1
                     else 1)"
  assumes "\<not> getItem_throws (localStorage st)" "\<not> setItem_throws (localStorage st)"
  shows "map_of (items (localStorage (update_streak env st))) (js ''lastActiveDate'')
           = Some (todayStr env)"
    and "map_of (items (localStorage (update_streak env st))) (js ''streakCount'')
           = Some (String_of count)"
    and "streak (update_streak env st) = count"
  using assms(4,5) storage_keys_distinct
  unfolding lastActive_def count0_def count_def
  by (simp_all add: update_streak_def getItem_def setItem_def emit_def Let_def map_of_put_item)

lemma save_resume_storage:
  "k \<noteq> js ''lastSession'' \<Longrightarrow>
     map_of (items (localStorage (save_resume env q st))) k = map_of (items (localStorage st)) k"
  "streak (save_resume env q st) = streak st"
  by (simp_all add: save_resume_def setItem_def Let_def map_of_put_item split: option.splits)

lemma handleSend_storage:
  assumes "question_of overrideText (query st) = Inr q" "q \<noteq> []"
  shows "\<exists>st'. handleSend env overrideText st = Inr st'
           \<and> localStorage st' =
               localStorage (save_resume env q (update_streak env
                 (emit (Posthog_capture (js ''ask_sent''))
                    (setMessages (\<lambda>m. m @ [\<lparr>msg_id = userMsg_uuid env, role = User, content = q,
                         ts = userMsg_now env\<rparr>]) st\<lparr>query := []\<rparr>))))
           \<and> streak st' =
               streak (save_resume env q (update_streak env
                 (emit (Posthog_capture (js ''ask_sent''))
                    (setMessages (\<lambda>m. m @ [\<lparr>msg_id = userMsg_uuid env, role = User, content = q,
                         ts = userMsg_now env\<rparr>]) st\<lparr>query := []\<rparr>))))"
  using assms
  by (simp add: handleSend_def Let_def setMessages_def emit_def split: option.splits prod.splits)

text \<open>
  Claim C4. A send with a non-blank question, with a working \<open>localStorage\<close>, two distinct
  non-empty date strings and a stored count that is a safe integer: the count read from
  \<open>streakCount\<close> stays when \<open>lastActiveDate\<close> is today's date, grows by one when it is
  yesterday's, and is 1 otherwise (absent, empty or any other date); afterwards
  \<open>lastActiveDate\<close> is today's date, \<open>streakCount\<close> is the new count in decimal digits and
  reads back as the new count, and the \<open>streak\<close> state is the new count.
\<close>

theorem streak_transition:
  assumes "question_of overrideText (query st) = Inr q" "q \<noteq> []"
      and "\<not> getItem_throws (localStorage st)" "\<not> setItem_throws (localStorage st)"
      and "todayStr env \<noteq> []" "yesterdayStr env \<noteq> []" "yesterdayStr env \<noteq> todayStr env"
      and "safe_integer (stored_count (map_of (items (localStorage st)) (js ''streakCount'')))"
  shows "\<exists>st'. handleSend env overrideText st = Inr st' \<and>
           (let lastActive = map_of (items (localStorage st)) (js ''lastActiveDate'');
                count = stored_count (map_of (items (localStorage st)) (js ''streakCount''));
                count' = (if lastActive = Some (todayStr env) then count
                          else if lastActive = Some (yesterdayStr env) then count + 1
                          else 1)
            in map_of (items (localStorage st')) (js ''lastActiveDate'') = Some (todayStr env)
               \<and> map_of (items (localStorage st')) (js ''streakCount'') = Some (String_of count')
               \<and> stored_count (map_of (items (localStorage st')) (js ''streakCount'')) = count'
               \<and> streak st' = count')"
proof -
  let ?st3 = "emit (Posthog_capture (js ''ask_sent''))
                (setMessages (\<lambda>m. m @ [\<lparr>msg_id = userMsg_uuid env, role = User, content = q,
                     ts = userMsg_now env\<rparr>]) st\<lparr>query := []\<rparr>)"
  have ls: "localStorage ?st3 = localStorage st"
    by (simp add: emit_def setMessages_def)
  obtain st' where r: "handleSend env overrideText st = Inr st'"
    and sto: "localStorage st' = localStorage (save_resume env q (update_streak env ?st3))"
    and str: "streak st' = streak (save_resume env q (update_streak env ?st3))"
    using handleSend_storage [OF assms(1,2)] by blast
  have g: "\<not> getItem_throws (localStorage ?st3)" "\<not> setItem_throws (localStorage ?st3)"
    using assms(3,4) by (simp_all add: ls)
  note u = update_streak_ok [OF g, of env, unfolded ls]
  show ?thesis
    using r assms(5,6,7)
    by (auto simp: sto str Let_def save_resume_storage storage_keys_distinct u
          stored_count_String_of)
qed

theorem streak_transition_witness:
  "question_of NoArgument (query sample_full) = Inr (js ''hi'')
   \<and> map_of (items (localStorage sample_full)) (js ''lastActiveDate'')
       = Some (yesterdayStr sample_env)
   \<and> stored_count (map_of (items (localStorage sample_full)) (js ''streakCount'')) = 4
   \<and> (\<exists>st'. handleSend sample_env NoArgument sample_full = Inr st'
         \<and> map_of (items (localStorage st')) (js ''lastActiveDate'') = Some (js ''2024-03-02'')
         \<and> map_of (items (localStorage st')) (js ''streakCount'') = Some (js ''5'')
         \<and> streak st' = 5)"
proof -
  have q: "question_of NoArgument (query sample_full) = Inr (js ''hi'')" "js ''hi'' \<noteq> []"
    by code_simp+
  have s: "\<not> getItem_throws (localStorage sample_full)"
    "\<not> setItem_throws (localStorage sample_full)"
    by (simp_all add: sample_full_def)
  have d: "todayStr sample_env \<noteq> []" "yesterdayStr sample_env \<noteq> []"
    "yesterdayStr sample_env \<noteq> todayStr sample_env"
    by code_simp+
  have c: "stored_count (map_of (items (localStorage sample_full)) (js ''streakCount'')) = 4"
    by code_simp
  have safe:
    "safe_integer (stored_count (map_of (items (localStorage sample_full)) (js ''streakCount'')))"
    by (simp add: c safe_integer_def)
  have l: "map_of (items (localStorage sample_full)) (js ''lastActiveDate'')
             = Some (yesterdayStr sample_env)"
    by code_simp
  have v: "String_of 5 = js ''5''" "todayStr sample_env = js ''2024-03-02''"
    by code_simp+
  from streak_transition [OF q s d safe]
  obtain st' where r: "handleSend sample_env NoArgument sample_full = Inr st'"
    and t: "let lastActive = map_of (items (localStorage sample_full)) (js ''lastActiveDate'');
                count = stored_count (map_of (items (localStorage sample_full)) (js ''streakCount''));
                count' = (if lastActive = Some (todayStr sample_env) then count
                          else if lastActive = Some (yesterdayStr sample_env) then count + 1
                          else 1)
            in map_of (items (localStorage st')) (js ''lastActiveDate'') = Some (todayStr sample_env)
               \<and> map_of (items (localStorage st')) (js ''streakCount'') = Some (String_of count')
               \<and> stored_count (map_of (items (localStorage st')) (js ''streakCount'')) = count'
               \<and> streak st' = count'"
    by blast
  from t d(3) have "map_of (items (localStorage st')) (js ''lastActiveDate'') = Some (js ''2024-03-02'')"
    "map_of (items (localStorage st')) (js ''streakCount'') = Some (js ''5'')"
    "streak st' = 5"
    by (simp_all add: Let_def l c v)
  with r q(1) l c show ?thesis by blast
qed

end
